theory Spec2Isabelle
  imports Main "HOL-Library.Sublist"
begin

section \<open>Dependency scanning (optimizer/scan.ts)\<close>

text \<open>
  A shallow embedding of \<open>packages/vite/src/node/optimizer/scan.ts\<close>: the entry point
  \<open>scanImports\<close>, the result ordering \<open>orderedDependencies\<close>, the memoising
  \<open>resolve\<close> facade and the resolve and load hooks that \<open>esbuildScanPlugin\<close> registers.

  Strings are lists of 8-bit characters, read as code units below 256. Everything the
  module imports from outside the file (the resolver container, the file system, node's
  \<open>path\<close>, esbuild, and the helpers of \<open>../utils\<close> and \<open>../constants\<close>) is a field of the
  record \<open>host\<close>, so every statement below holds for any implementation of them.
\<close>

subsection \<open>JavaScript values, strings and plain objects\<close>

text \<open>
  The shapes a configuration value can have at run time, with JavaScript's truthiness
  (\<open>if (x)\<close>, \<open>!x\<close>). Arrays and objects of the configuration hold strings.
\<close>

datatype js_value =
    JUndefined
  | JNull
  | JBoolean bool
  | JNumber int
  | JString string
  | JArray "string list"
  | JObject "(string \<times> string) list"
  | JFunction

fun truthy :: "js_value \<Rightarrow> bool" where
  "truthy JUndefined = False"
| "truthy JNull = False"
| "truthy (JBoolean b) = b"
| "truthy (JNumber n) = (n \<noteq> 0)"
| "truthy (JString s) = (s \<noteq> [])"
| "truthy (JArray xs) = True"
| "truthy (JObject ps) = True"
| "truthy JFunction = True"

text \<open>A value of type \<open>string | undefined\<close>; the empty string is falsy.\<close>

fun truthyString :: "string option \<Rightarrow> bool" where
  "truthyString None = False"
| "truthyString (Some s) = (s \<noteq> [])"

text \<open>\<open>s.includes(t)\<close>, \<open>s.startsWith(t)\<close> and \<open>s.endsWith(t)\<close>.\<close>

fun startsWith :: "string \<Rightarrow> string \<Rightarrow> bool" where
  "startsWith s [] = True"
| "startsWith [] (p # ps) = False"
| "startsWith (c # cs) (p # ps) = (c = p \<and> startsWith cs ps)"

fun str_includes :: "string \<Rightarrow> string \<Rightarrow> bool" where
  "str_includes [] t = (t = [])"
| "str_includes (c # cs) t = (startsWith (c # cs) t \<or> str_includes cs t)"

definition endsWith :: "string \<Rightarrow> string \<Rightarrow> bool" where
  "endsWith s t = startsWith (rev s) (rev t)"

text \<open>
  A plain object (\<open>Record<string, string>\<close>, created by \<open>{}\<close>): its own properties in the
  order they were created. Reading \<open>obj[k]\<close> falls back on \<open>Object.prototype\<close>, whose
  members are all truthy; \<open>obj[k] = v\<close> keeps the place of a key that exists and appends a
  new one (as \<open>Map.prototype.set\<close> does, and the assignment to the script registry).
\<close>

type_synonym js_object = "(string \<times> string) list"

definition objectPrototypeKeys :: "string list" where
  "objectPrototypeKeys =
     [''constructor'', ''hasOwnProperty'', ''isPrototypeOf'', ''propertyIsEnumerable'',
      ''toLocaleString'', ''toString'', ''valueOf'', ''__proto__'', ''__defineGetter__'',
      ''__defineSetter__'', ''__lookupGetter__'', ''__lookupSetter__'']"

definition obj_truthy :: "js_object \<Rightarrow> string \<Rightarrow> bool" where
  "obj_truthy obj k =
     (case map_of obj k of
        Some v \<Rightarrow> v \<noteq> []
      | None \<Rightarrow> k \<in> set objectPrototypeKeys)"

fun obj_set :: "('k \<times> 'v) list \<Rightarrow> 'k \<Rightarrow> 'v \<Rightarrow> ('k \<times> 'v) list" where
  "obj_set [] k v = [(k, v)]"
| "obj_set ((k', v') # ps) k v =
     (if k' = k then (k, v) # ps else (k', v') # obj_set ps k v)"

text \<open>
  The order in which an object's keys are enumerated (\<open>Object.entries\<close>, \<open>Object.keys\<close>,
  \<open>JSON.stringify\<close>): the keys that are array indices (canonical decimal numerals up to
  \<open>2^32 - 2\<close>) first, in ascending numeric order, then the other keys in creation order.
\<close>

definition isDigit :: "char \<Rightarrow> bool" where
  "isDigit c = (c \<in> set ''0123456789'')"

definition digitValue :: "char \<Rightarrow> nat" where
  "digitValue c = length (takeWhile (\<lambda>d. d \<noteq> c) ''0123456789'')"

definition decimalValue :: "string \<Rightarrow> nat" where
  "decimalValue k = foldl (\<lambda>n c. 10 * n + digitValue c) 0 k"

definition isArrayIndex :: "string \<Rightarrow> bool" where
  "isArrayIndex k =
     (k \<noteq> [] \<and> list_all isDigit k \<and> (k = ''0'' \<or> hd k \<noteq> CHR ''0'') \<and>
      decimalValue k \<le> 4294967294)"

definition Object_entries :: "js_object \<Rightarrow> (string \<times> string) list" where
  "Object_entries obj =
     sort_key (\<lambda>p. decimalValue (fst p)) (filter (\<lambda>p. isArrayIndex (fst p)) obj) @
     filter (\<lambda>p. \<not> isArrayIndex (fst p)) obj"

definition Object_keys :: "js_object \<Rightarrow> string list" where
  "Object_keys obj = map fst (Object_entries obj)"

definition Object_values :: "js_object \<Rightarrow> string list" where
  "Object_values obj = map snd (Object_entries obj)"

definition Object_fromEntries :: "(string \<times> string) list \<Rightarrow> js_object" where
  "Object_fromEntries es = foldl (\<lambda>obj p. obj_set obj (fst p) (snd p)) [] es"

text \<open>
  \<open>Array.prototype.sort(compareFn)\<close> is a stable sort: \<open>a\<close> stays before \<open>b\<close> unless
  \<open>compareFn(a, b) > 0\<close>.
\<close>

fun array_insert :: "('a \<Rightarrow> 'a \<Rightarrow> int) \<Rightarrow> 'a \<Rightarrow> 'a list \<Rightarrow> 'a list" where
  "array_insert compareFn x [] = [x]"
| "array_insert compareFn x (y # ys) =
     (if compareFn x y \<le> 0 then x # y # ys else y # array_insert compareFn x ys)"

definition array_sort :: "('a \<Rightarrow> 'a \<Rightarrow> int) \<Rightarrow> 'a list \<Rightarrow> 'a list" where
  "array_sort compareFn xs = foldr (array_insert compareFn) xs []"

subsection \<open>The host: what scan.ts imports\<close>

text \<open>The result of a load hook: \<open>{ loader, contents, pluginData: { htmlType: { loader } } }\<close>.\<close>

record onload_result =
  load_loader :: string
  load_contents :: string
  load_htmlType :: "string option"

text \<open>
  One import edge as esbuild hands it to a resolve hook: the build it belongs to (one
  \<open>build\<close> call per entry), the specifier, the importing file (the empty string for an
  entry point) and \<open>pluginData?.htmlType?.loader\<close> of the importing module. The load
  hooks are asynchronous and esbuild runs them side by side, so the edge also tells what
  the load of its module meets when it comes back from an \<open>await\<close> inside the loop over
  the script blocks: for each such \<open>await\<close> in turn, the \<open>lastIndex\<close> that another load
  has left in the regular expression they share, or \<open>None\<close> when no other load has
  touched it.
\<close>

record import_edge =
  edgeBuild :: nat
  edgePath :: string
  edgeImporter :: string
  edgeLoader :: "string option"
  edgeInterference :: "nat option list"

text \<open>
  What a run of \<open>Promise.all(entries.map(build))\<close> does with the plugin: the import edges
  the builds visit, in the order the hooks run, and the error of the first build that
  rejects, if one does.
\<close>

record crawl_run =
  crawlEdges :: "import_edge list"
  crawlError :: "string option"

text \<open>
  The options a call of \<open>resolve\<close> passes on to the resolver: none, or
  \<open>{ custom: { depScan: { loader } } }\<close>.
\<close>

datatype resolve_options = NoOptions | DepScan "string option"

record host =
  \<comment> \<open>\<open>String.prototype.localeCompare\<close> of the running engine and locale\<close>
  localeCompare :: "string \<Rightarrow> string \<Rightarrow> int"
  \<comment> \<open>\<open>container.resolveId(id, importer, {custom: {depScan: {loader}}, scan: true})?.id\<close>\<close>
  resolveId :: "string \<Rightarrow> string option \<Rightarrow> resolve_options \<Rightarrow> string option"
  \<comment> \<open>fast-glob: pattern, \<open>cwd\<close>, \<open>ignore\<close>; absolute paths\<close>
  glob :: "js_value \<Rightarrow> string \<Rightarrow> string list \<Rightarrow> string list"
  existsSync :: "string \<Rightarrow> bool"
  readFileSync :: "string \<Rightarrow> string"
  \<comment> \<open>node's \<open>path.resolve(root, p)\<close>, \<open>path.resolve(p)\<close>, \<open>path.dirname\<close>, \<open>path.isAbsolute\<close>, \<open>path.extname\<close>\<close>
  path_resolve2 :: "string \<Rightarrow> string \<Rightarrow> string"
  path_resolve :: "string \<Rightarrow> string"
  path_dirname :: "string \<Rightarrow> string"
  path_isAbsolute :: "string \<Rightarrow> bool"
  path_extname :: "string \<Rightarrow> string"
  \<comment> \<open>\<open>../utils\<close> and \<open>../constants\<close>, as predicates and functions on strings\<close>
  normalizePath :: "string \<Rightarrow> string"
  cleanUrl :: "string \<Rightarrow> string"
  isOptimizable :: "string \<Rightarrow> bool"
  moduleListContains :: "string list \<Rightarrow> string \<Rightarrow> bool"
  dataUrlRE :: "string \<Rightarrow> bool"
  virtualModuleRE :: "string \<Rightarrow> bool"
  virtualModulePrefix :: string
  JS_TYPES_RE :: "string \<Rightarrow> bool"
  knownAssetTypesRE :: "string \<Rightarrow> bool"
  SPECIAL_QUERY_RE :: "string \<Rightarrow> bool"
  multilineCommentsRE_replace :: "string \<Rightarrow> string"
  singlelineCommentsRE_replace :: "string \<Rightarrow> string"
  \<comment> \<open>the matches of \<open>importsRE\<close> in a text: capture group 1 of each, in order\<close>
  importsRE_matches :: "string \<Rightarrow> string list"
  \<comment> \<open>esbuild's \<open>transform(contents, {loader}).code\<close>\<close>
  esbuild_transform :: "string \<Rightarrow> string \<Rightarrow> string"
  \<comment> \<open>\<open>transformGlobImport(code, id, root, resolve)?.s.toString()\<close>\<close>
  transformGlobImport :: "string \<Rightarrow> string \<Rightarrow> string \<Rightarrow> string option"
  \<comment> \<open>esbuild's traversal for the given entries\<close>
  crawl :: "string list \<Rightarrow> crawl_run"

text \<open>The fields of \<open>ResolvedConfig\<close> that the module reads.\<close>

record resolved_config =
  config_root :: string
  optimizeDeps_entries :: js_value
  optimizeDeps_include :: "string list option"
  optimizeDeps_exclude :: "string list option"
  rollupOptions_input :: js_value
  build_outDir :: string
  esbuild_jsxInject :: "string option"
  esbuildOptions_loader :: "string \<Rightarrow> string option"

subsection \<open>The regular expressions of the load hook for markup files\<close>

text \<open>
  Character classes of the regular expressions: \<open>\s\<close>, \<open>\w\<close>, and the case folding of the
  \<open>i\<close> flag, which on code units below 256 only identifies the ASCII letters.
\<close>

definition isSpace :: "char \<Rightarrow> bool" where
  "isSpace c = (c \<in> set [CHR 0x09, CHR 0x0A, CHR 0x0B, CHR 0x0C, CHR 0x0D, CHR 0x20, CHR 0xA0])"

definition isWordChar :: "char \<Rightarrow> bool" where
  "isWordChar c =
     (c \<in> set ''abcdefghijklmnopqrstuvwxyzABCDEFGHIJKLMNOPQRSTUVWXYZ0123456789_'')"

definition asciiLower :: "char \<Rightarrow> char" where
  "asciiLower c =
     (case map_of (zip ''ABCDEFGHIJKLMNOPQRSTUVWXYZ'' ''abcdefghijklmnopqrstuvwxyz'') c of
        Some l \<Rightarrow> l
      | None \<Rightarrow> c)"

text \<open>The text starts with the pattern, letters compared without case (the pattern is in lower case).\<close>

fun startsWithCI :: "string \<Rightarrow> string \<Rightarrow> bool" where
  "startsWithCI s [] = True"
| "startsWithCI [] (p # ps) = False"
| "startsWithCI (c # cs) (p # ps) = (asciiLower c = p \<and> startsWithCI cs ps)"

definition dquote :: char where
  "dquote = CHR 0x22"

definition squote :: char where
  "squote = CHR 0x27"

definition newline :: char where
  "newline = CHR 0x0A"

text \<open>
  \<open>commentRE = /<!--.*?-->/gs\<close> and \<open>raw.replace(commentRE, '<!---->')\<close>: every comment,
  from \<open><!--\<close> to the first \<open>-->\<close> after it, is replaced; the search goes on behind it.
\<close>

fun untilCommentEnd :: "string \<Rightarrow> nat option" where
  "untilCommentEnd [] = None"
| "untilCommentEnd (c # cs) =
     (if startsWith (c # cs) ''-->'' then Some 0 else map_option Suc (untilCommentEnd cs))"

fun replaceComments :: "nat \<Rightarrow> string \<Rightarrow> string" where
  "replaceComments skip [] = []"
| "replaceComments skip (c # cs) =
     (if 0 < skip then replaceComments (skip - 1) cs
      else if startsWith (c # cs) ''<!--'' then
        (case untilCommentEnd (drop 4 (c # cs)) of
           None \<Rightarrow> c # replaceComments 0 cs
         | Some n \<Rightarrow> ''<!---->'' @ replaceComments (4 + n + 3 - 1) cs)
      else c # replaceComments 0 cs)"

text \<open>\<open>(.*?)<\/script>\<close> with the flags \<open>is\<close>: the text up to the first closing tag.\<close>

fun untilCloseTag :: "string \<Rightarrow> string option" where
  "untilCloseTag [] = None"
| "untilCloseTag (c # cs) =
     (if startsWithCI (c # cs) ''</script>'' then Some []
      else map_option (\<lambda>content. c # content) (untilCloseTag cs))"

text \<open>
  \<open>scriptModuleRE = /(<script\b[^>]+type\s*=\s*(?:"module"|'module')[^>]*>)(.*?)<\/script>/gis\<close>
  at the start of a text. No part of the opening tag can match \<open>>\<close>, so the tag runs to the
  first \<open>>\<close>; between \<open><script\<close> and that \<open>>\<close> there is a character that is not a word
  character, and \<open>type = "module"\<close> (or \<open>'module'\<close>) starts somewhere behind it. The result is
  the two capture groups.
\<close>

definition typeModuleAt :: "string \<Rightarrow> bool" where
  "typeModuleAt s =
     (startsWithCI s ''type'' \<and>
      (let r = dropWhile isSpace (drop 4 s) in
       startsWith r ''='' \<and>
       (let v = dropWhile isSpace (drop 1 r) in
        startsWithCI v (dquote # ''module'' @ [dquote]) \<or>
        startsWithCI v (squote # ''module'' @ [squote]))))"

fun existsSuffix :: "(string \<Rightarrow> bool) \<Rightarrow> string \<Rightarrow> bool" where
  "existsSuffix P [] = P []"
| "existsSuffix P (c # cs) = (P (c # cs) \<or> existsSuffix P cs)"

definition scriptModuleRE_at :: "string \<Rightarrow> (string \<times> string) option" where
  "scriptModuleRE_at s =
     (if startsWithCI s ''<script'' then
        (let attrs = takeWhile (\<lambda>c. c \<noteq> CHR ''>'') (drop 7 s) in
         case dropWhile (\<lambda>c. c \<noteq> CHR ''>'') (drop 7 s) of
           [] \<Rightarrow> None
         | gt # after \<Rightarrow>
             if attrs \<noteq> [] \<and> \<not> isWordChar (hd attrs) \<and> existsSuffix typeModuleAt (tl attrs)
             then (case untilCloseTag after of
                     None \<Rightarrow> None
                   | Some content \<Rightarrow> Some (take 7 s @ attrs @ ''>'', content))
             else None)
      else None)"

text \<open>
  \<open>scriptRE = /(<script(?:\s[^>]*>|>))(.*?)<\/script>/gis\<close> at the start of a text: the
  opening tag is \<open><script>\<close>, or \<open><script\<close>, a white space and everything to the first
  \<open>>\<close>.
\<close>

definition scriptRE_at :: "string \<Rightarrow> (string \<times> string) option" where
  "scriptRE_at s =
     (if startsWithCI s ''<script'' then
        (case drop 7 s of
           [] \<Rightarrow> None
         | c # rest \<Rightarrow>
             if c = CHR ''>'' then
               (case untilCloseTag rest of
                  None \<Rightarrow> None
                | Some content \<Rightarrow> Some (take 8 s, content))
             else if isSpace c then
               (case dropWhile (\<lambda>c. c \<noteq> CHR ''>'') rest of
                  [] \<Rightarrow> None
                | gt # after \<Rightarrow>
                    (case untilCloseTag after of
                       None \<Rightarrow> None
                     | Some content \<Rightarrow>
                         Some (take 8 s @ takeWhile (\<lambda>c. c \<noteq> CHR ''>'') rest @ ''>'', content)))
             else None)
      else None)"

text \<open>
  The loop \<open>while ((match = regex.exec(raw)))\<close> of a global regular expression, started
  at \<open>lastIndex = 0\<close>: the leftmost match, then the leftmost match behind it, and so on.
  A match of either expression ends with the nine characters of \<open></script>\<close>.
\<close>

fun regexExecAll ::
  "(string \<Rightarrow> (string \<times> string) option) \<Rightarrow> nat \<Rightarrow> string \<Rightarrow> (string \<times> string) list" where
  "regexExecAll matchAt skip [] = []"
| "regexExecAll matchAt skip (c # cs) =
     (if 0 < skip then regexExecAll matchAt (skip - 1) cs
      else
        (case matchAt (c # cs) of
           None \<Rightarrow> regexExecAll matchAt 0 cs
         | Some m \<Rightarrow> m # regexExecAll matchAt (length (fst m) + length (snd m) + 9 - 1) cs))"

text \<open>
  \<open>scriptModuleRE\<close> and \<open>scriptRE\<close> are objects of the module, and \<open>lastIndex\<close> is a field
  of theirs that every load of a markup file reads and writes. The loop of one load runs
  without a break up to the first block whose body reaches
  \<open>await doTransformGlobImport(...)\<close>; there other loads may run and move \<open>lastIndex\<close>.
  \<open>execUntilAwait\<close> is the loop from the current position up to and including the first
  block that awaits: the blocks visited and, if the loop was suspended, the text behind
  the last match, which is where \<open>lastIndex\<close> then points.
\<close>

fun execUntilAwait ::
  "(string \<times> string \<Rightarrow> bool) \<Rightarrow> (string \<Rightarrow> (string \<times> string) option) \<Rightarrow> nat \<Rightarrow> string \<Rightarrow>
     (string \<times> string) list \<times> string option" where
  "execUntilAwait awaits matchAt skip [] = ([], None)"
| "execUntilAwait awaits matchAt skip (c # cs) =
     (if 0 < skip then execUntilAwait awaits matchAt (skip - 1) cs
      else
        (case matchAt (c # cs) of
           None \<Rightarrow> execUntilAwait awaits matchAt 0 cs
         | Some m \<Rightarrow>
             if awaits m then ([m], Some (drop (length (fst m) + length (snd m) + 9) (c # cs)))
             else
               (case execUntilAwait awaits matchAt (length (fst m) + length (snd m) + 9 - 1) cs of
                  (ms, suspended) \<Rightarrow> (m # ms, suspended))))"

text \<open>
  The whole loop of one load over the text \<open>raw\<close>, from the position \<open>s\<close> (a suffix of
  \<open>raw\<close>): at each \<open>await\<close> the next element of \<open>interference\<close> tells where the loop goes
  on, behind its own last match (\<open>None\<close>) or at the index \<open>i\<close> that another load has
  written (\<open>Some i\<close>; \<open>exec\<close> fails when \<open>i\<close> is beyond the end). When the list is used
  up no load interferes any more, and the awaits make no difference.
\<close>

fun loopVisits ::
  "(string \<times> string \<Rightarrow> bool) \<Rightarrow> (string \<Rightarrow> (string \<times> string) option) \<Rightarrow> string \<Rightarrow>
     nat option list \<Rightarrow> string \<Rightarrow> (string \<times> string) list" where
  "loopVisits awaits matchAt raw [] s = regexExecAll matchAt 0 s"
| "loopVisits awaits matchAt raw (x # interference) s =
     (case execUntilAwait awaits matchAt 0 s of
        (ms, None) \<Rightarrow> ms
      | (ms, Some rest) \<Rightarrow>
          ms @ loopVisits awaits matchAt raw interference
                 (case x of None \<Rightarrow> rest | Some i \<Rightarrow> drop i raw))"

text \<open>
  \<open>srcRE\<close>, \<open>typeRE\<close>, \<open>langRE\<close> and \<open>contextRE\<close> are
  \<open>/\bNAME\s*=\s*(?:"([^"]+)"|'([^']+)'|([^\s'">]+))/i\<close> for the four attribute names.
  \<open>openTag.match(re)\<close> finds the leftmost match; the value is
  \<open>match[1] || match[2] || match[3]\<close>, never empty.
\<close>

definition attrValueAt :: "string \<Rightarrow> string option" where
  "attrValueAt s =
     (case s of
        [] \<Rightarrow> None
      | q # rest \<Rightarrow>
          if q = dquote \<or> q = squote then
            (let v = takeWhile (\<lambda>c. c \<noteq> q) rest in
             if v \<noteq> [] \<and> dropWhile (\<lambda>c. c \<noteq> q) rest \<noteq> [] then Some v else None)
          else
            (let v = takeWhile (\<lambda>c. \<not> isSpace c \<and> c \<noteq> squote \<and> c \<noteq> dquote \<and> c \<noteq> CHR ''>'') s in
             if v \<noteq> [] then Some v else None))"

definition attrAt :: "string \<Rightarrow> string \<Rightarrow> string option" where
  "attrAt name s =
     (if startsWithCI s name then
        (let r = dropWhile isSpace (drop (length name) s) in
         if startsWith r ''='' then attrValueAt (dropWhile isSpace (drop 1 r)) else None)
      else None)"

fun attrMatch :: "string \<Rightarrow> bool \<Rightarrow> string \<Rightarrow> string option" where
  "attrMatch name prevIsWord [] = None"
| "attrMatch name prevIsWord (c # cs) =
     (case (if prevIsWord then None else attrAt name (c # cs)) of
        Some v \<Rightarrow> Some v
      | None \<Rightarrow> attrMatch name (isWordChar c) cs)"

definition srcRE :: "string \<Rightarrow> string option" where
  "srcRE openTag = attrMatch ''src'' False openTag"

definition typeRE :: "string \<Rightarrow> string option" where
  "typeRE openTag = attrMatch ''type'' False openTag"

definition langRE :: "string \<Rightarrow> string option" where
  "langRE openTag = attrMatch ''lang'' False openTag"

definition contextRE :: "string \<Rightarrow> string option" where
  "contextRE openTag = attrMatch ''context'' False openTag"

text \<open>\<open>JSON.stringify\<close> of a string, \<open>String(n)\<close> of a counter, and \<open>s.trim()\<close> being empty.\<close>

definition hexDigit :: "nat \<Rightarrow> char" where
  "hexDigit n = ''0123456789abcdef'' ! (n mod 16)"

definition jsonEscape :: "char \<Rightarrow> string" where
  "jsonEscape c =
     (if c = dquote then [CHR 0x5C, dquote]
      else if c = CHR 0x5C then [CHR 0x5C, CHR 0x5C]
      else if c = CHR 0x08 then [CHR 0x5C, CHR ''b'']
      else if c = CHR 0x0C then [CHR 0x5C, CHR ''f'']
      else if c = CHR 0x0A then [CHR 0x5C, CHR ''n'']
      else if c = CHR 0x0D then [CHR 0x5C, CHR ''r'']
      else if c = CHR 0x09 then [CHR 0x5C, CHR ''t'']
      else if (of_char c :: nat) < 32 then
        [CHR 0x5C, CHR ''u'', CHR ''0'', CHR ''0'', hexDigit (of_char c div 16), hexDigit (of_char c)]
      else [c])"

definition JSON_stringify :: "string \<Rightarrow> string" where
  "JSON_stringify s = dquote # concat (map jsonEscape s) @ [dquote]"

fun showNat :: "nat \<Rightarrow> string" where
  "showNat n =
     (if n < 10 then [''0123456789'' ! n]
      else showNat (n div 10) @ [''0123456789'' ! (n mod 10)])"

definition trimIsEmpty :: "string \<Rightarrow> bool" where
  "trimIsEmpty s = list_all isSpace s"

subsection \<open>The state of one scan\<close>

text \<open>
  What the hooks of one \<open>scanImports\<close> call share and change: the objects \<open>depImports\<close> and
  \<open>missing\<close>, the map \<open>seen\<close> of the \<open>resolve\<close> facade, and the registry \<open>scripts\<close> that each
  build (each call of \<open>setup\<close>) creates. Two logs make effects visible: the calls of
  \<open>container.resolveId\<close> and the files read from disk.
\<close>

record scan_state =
  depImports :: js_object
  missingImports :: js_object
  seen :: "(string \<times> string option) list"
  scripts :: "nat \<Rightarrow> (string \<times> onload_result) list"
  resolveIdCalls :: "(string \<times> string option \<times> resolve_options) list"
  fileReads :: "string list"

definition initialState :: scan_state where
  "initialState =
     \<lparr>depImports = [], missingImports = [], seen = [], scripts = (\<lambda>b. []),
      resolveIdCalls = [], fileReads = []\<rparr>"

subsection \<open>The resolve facade\<close>

text \<open>
  \<open>const key = id + (importer && path.dirname(importer))\<close>: an importer that is
  \<open>undefined\<close> contributes the text \<open>undefined\<close>, the empty importer nothing.
\<close>

definition resolveKey :: "host \<Rightarrow> string \<Rightarrow> string option \<Rightarrow> string" where
  "resolveKey h modId importer =
     modId @ (case importer of
             None \<Rightarrow> ''undefined''
           | Some i \<Rightarrow> if i = [] then [] else path_dirname h i)"

text \<open>
  \<open>resolve\<close> is an async function with one \<open>await\<close>. Up to the \<open>await\<close> it looks the key
  up in \<open>seen\<close> and, on a miss, calls \<open>container.resolveId\<close>; when the resolver's promise
  settles it stores the result under the key and returns it. \<open>resolve_begin\<close> and
  \<open>resolve_end\<close> are these two halves, \<open>resolve\<close> is a call that nothing interrupts.
\<close>

datatype resolve_step = Returned "string option" | Awaiting string "string option"

definition resolve_begin ::
  "host \<Rightarrow> string \<Rightarrow> string option \<Rightarrow> resolve_options \<Rightarrow> scan_state \<Rightarrow> resolve_step \<times> scan_state" where
  "resolve_begin h modId importer options st =
     (let key = resolveKey h modId importer in
      case map_of (seen st) key of
        Some res \<Rightarrow> (Returned res, st)
      | None \<Rightarrow>
          (let importer' =
                 (case importer of
                    None \<Rightarrow> None
                  | Some i \<Rightarrow> Some (if i = [] then [] else normalizePath h i))
           in (Awaiting key (resolveId h modId importer' options),
               st\<lparr>resolveIdCalls := resolveIdCalls st @ [(modId, importer', options)]\<rparr>)))"

definition resolve_end :: "string \<Rightarrow> string option \<Rightarrow> scan_state \<Rightarrow> string option \<times> scan_state" where
  "resolve_end key res st = (res, st\<lparr>seen := obj_set (seen st) key res\<rparr>)"

definition resolve ::
  "host \<Rightarrow> string \<Rightarrow> string option \<Rightarrow> resolve_options \<Rightarrow> scan_state \<Rightarrow> string option \<times> scan_state" where
  "resolve h modId importer options st =
     (case resolve_begin h modId importer options st of
        (Returned res, st') \<Rightarrow> (res, st')
      | (Awaiting key res, st') \<Rightarrow> resolve_end key res st')"

text \<open>
  Several calls of \<open>resolve\<close> in flight on the one JavaScript thread: a schedule says in
  which order the calls start and are resumed. A call that is started runs to its
  \<open>await\<close>; a call that is resumed runs from there to its end.
\<close>

record resolve_call =
  callId :: string
  callImporter :: "string option"
  callOptions :: resolve_options

datatype resolve_event = CallStart nat | CallResume nat

record resolve_run =
  runState :: scan_state
  awaiting :: "(nat \<times> string \<times> string option) list"
  finished :: "(nat \<times> string option) list"

fun stepResolve :: "host \<Rightarrow> resolve_call list \<Rightarrow> resolve_run \<Rightarrow> resolve_event \<Rightarrow> resolve_run" where
  "stepResolve h calls run (CallStart n) =
     (if n < length calls \<and> map_of (awaiting run) n = None \<and> map_of (finished run) n = None then
        (case resolve_begin h (callId (calls ! n)) (callImporter (calls ! n))
                (callOptions (calls ! n)) (runState run) of
           (Returned res, st) \<Rightarrow> run\<lparr>runState := st, finished := finished run @ [(n, res)]\<rparr>
         | (Awaiting key res, st) \<Rightarrow> run\<lparr>runState := st, awaiting := awaiting run @ [(n, key, res)]\<rparr>)
      else run)"
| "stepResolve h calls run (CallResume n) =
     (case map_of (awaiting run) n of
        None \<Rightarrow> run
      | Some (key, res) \<Rightarrow>
          (case resolve_end key res (runState run) of
             (res', st) \<Rightarrow>
               run\<lparr>runState := st,
                   awaiting := filter (\<lambda>a. fst a \<noteq> n) (awaiting run),
                   finished := finished run @ [(n, res')]\<rparr>))"

definition runResolves ::
  "host \<Rightarrow> resolve_call list \<Rightarrow> resolve_event list \<Rightarrow> scan_state \<Rightarrow> resolve_run" where
  "runResolves h calls events st =
     foldl (stepResolve h calls) \<lparr>runState = st, awaiting = [], finished = []\<rparr> events"

subsection \<open>The resolve hooks\<close>

text \<open>
  What a resolve hook returns: \<open>{ path, external, namespace }\<close>. A hook that returns
  nothing (\<open>None\<close> here) leaves the edge to the hooks registered after it.
\<close>

record on_resolve_result =
  resPath :: string
  resExternal :: bool
  resNamespace :: "string option"

text \<open>
  Modelled from the spec: \<open>externalRE\<close> of \<open>../utils\<close>, which is not among the sources. The
  spec describes it as the remote URL forms \<open>http(s)://\<close> and protocol-relative.
\<close>

definition externalRE :: "string \<Rightarrow> bool" where
  "externalRE s = (startsWith s ''http://'' \<or> startsWith s ''https://'' \<or> startsWith s ''//'')"

text \<open>\<open>htmlTypesRE = /\.(html|vue|svelte|astro|imba)$/\<close>\<close>

definition htmlTypesRE :: "string \<Rightarrow> bool" where
  "htmlTypesRE s = list_ex (endsWith s) [''.html'', ''.vue'', ''.svelte'', ''.astro'', ''.imba'']"

text \<open>The filter of the hook for bare imports, \<open>/^[\w@][^:]/\<close>.\<close>

fun bareImportRE :: "string \<Rightarrow> bool" where
  "bareImportRE (c # d # rest) = ((isWordChar c \<or> c = CHR ''@'') \<and> d \<noteq> CHR '':'')"
| "bareImportRE s = False"

text \<open>\<open>/\.(css|less|sass|scss|styl|stylus|pcss|postcss|sss|json|wasm)$/\<close>\<close>

definition cssJsonWasmRE :: "string \<Rightarrow> bool" where
  "cssJsonWasmRE s =
     list_ex (endsWith s)
       [''.css'', ''.less'', ''.sass'', ''.scss'', ''.styl'', ''.stylus'', ''.pcss'',
        ''.postcss'', ''.sss'', ''.json'', ''.wasm'']"

definition isScannable :: "host \<Rightarrow> string \<Rightarrow> bool" where
  "isScannable h modId = (JS_TYPES_RE h modId \<or> htmlTypesRE modId)"

definition shouldExternalizeDep :: "host \<Rightarrow> string \<Rightarrow> string \<Rightarrow> bool" where
  "shouldExternalizeDep h resolvedId rawId =
     (if \<not> path_isAbsolute h resolvedId then True
      else if resolvedId = rawId \<or> CHR 0x00 \<in> set resolvedId then True
      else False)"

text \<open>
  \<open>const exclude = [...(config.optimizeDeps?.exclude || []), '@vite/client', '@vite/env']\<close>
\<close>

definition exclude :: "resolved_config \<Rightarrow> string list" where
  "exclude config =
     (case optimizeDeps_exclude config of None \<Rightarrow> [] | Some xs \<Rightarrow> xs) @
     [''@vite/client'', ''@vite/env'']"

definition externalUnlessEntry :: "string list \<Rightarrow> string \<Rightarrow> on_resolve_result" where
  "externalUnlessEntry entries path =
     \<lparr>resPath = path, resExternal = (path \<notin> set entries), resNamespace = None\<rparr>"

text \<open>\<open>path.replace(virtualModulePrefix, '')\<close>: the first occurrence is removed.\<close>

fun removeFirst :: "string \<Rightarrow> string \<Rightarrow> string" where
  "removeFirst pat [] = []"
| "removeFirst pat (c # cs) =
     (if startsWith (c # cs) pat then drop (length pat) (c # cs) else c # removeFirst pat cs)"

text \<open>The hook for markup files, filter \<open>htmlTypesRE\<close>.\<close>

definition htmlTypesOnResolve ::
  "host \<Rightarrow> import_edge \<Rightarrow> scan_state \<Rightarrow> on_resolve_result option \<times> scan_state" where
  "htmlTypesOnResolve h e st =
     (case resolve h (edgePath e) (Some (edgeImporter e)) NoOptions st of
        (resolved, st') \<Rightarrow>
          (case resolved of
             None \<Rightarrow> (None, st')
           | Some r \<Rightarrow>
               if r = [] then (None, st')
               else if str_includes r ''node_modules'' \<and> isOptimizable h r then (None, st')
               else (Some \<lparr>resPath = r, resExternal = False, resNamespace = Some ''html''\<rparr>, st')))"

text \<open>\<open>include?.includes(id)\<close> for \<open>const include = config.optimizeDeps?.include\<close>\<close>

definition includeContains :: "resolved_config \<Rightarrow> string \<Rightarrow> bool" where
  "includeContains config modId =
     (case optimizeDeps_include config of
        None \<Rightarrow> False
      | Some inc \<Rightarrow> modId \<in> set inc)"

text \<open>The hook for bare imports: record and externalize.\<close>

definition bareImportOnResolve ::
  "host \<Rightarrow> resolved_config \<Rightarrow> string list \<Rightarrow> import_edge \<Rightarrow> scan_state \<Rightarrow>
     on_resolve_result option \<times> scan_state" where
  "bareImportOnResolve h config entries e st =
     (let modId = edgePath e in
      if moduleListContains h (exclude config) modId then (Some (externalUnlessEntry entries modId), st)
      else if obj_truthy (depImports st) modId then (Some (externalUnlessEntry entries modId), st)
      else
        (case resolve h modId (Some (edgeImporter e)) (DepScan (edgeLoader e)) st of
           (resolved, st') \<Rightarrow>
             (case (if truthyString resolved then resolved else None) of
                Some r \<Rightarrow>
                  if shouldExternalizeDep h r modId then (Some (externalUnlessEntry entries modId), st')
                  else if str_includes r ''node_modules'' \<or> includeContains config modId then
                    (Some (externalUnlessEntry entries modId),
                     if isOptimizable h r then st'\<lparr>depImports := obj_set (depImports st') modId r\<rparr>
                     else st')
                  else if isScannable h r then
                    (Some \<lparr>resPath = path_resolve h r, resExternal = False,
                           resNamespace = (if htmlTypesRE r then Some ''html'' else None)\<rparr>,
                     st')
                  else (Some (externalUnlessEntry entries modId), st')
              | None \<Rightarrow>
                  (None,
                   st'\<lparr>missingImports :=
                         obj_set (missingImports st') modId (normalizePath h (edgeImporter e))\<rparr>))))"

text \<open>The catch-all hook, filter \<open>/.*/\<close>.\<close>

definition catchAllOnResolve ::
  "host \<Rightarrow> string list \<Rightarrow> import_edge \<Rightarrow> scan_state \<Rightarrow> on_resolve_result \<times> scan_state" where
  "catchAllOnResolve h entries e st =
     (let modId = edgePath e in
      case resolve h modId (Some (edgeImporter e)) (DepScan (edgeLoader e)) st of
        (resolved, st') \<Rightarrow>
          (case (if truthyString resolved then resolved else None) of
             Some r \<Rightarrow>
               if shouldExternalizeDep h r modId \<or> \<not> isScannable h r
               then (externalUnlessEntry entries modId, st')
               else (\<lparr>resPath = path_resolve h (cleanUrl h r), resExternal = False,
                      resNamespace = (if htmlTypesRE r then Some ''html'' else None)\<rparr>,
                     st')
           | None \<Rightarrow> (externalUnlessEntry entries modId, st')))"

text \<open>
  esbuild runs the resolve hooks whose filter matches the specifier in the order of
  their registration, up to the first that returns a result.
\<close>

definition onResolve ::
  "host \<Rightarrow> resolved_config \<Rightarrow> string list \<Rightarrow> import_edge \<Rightarrow> scan_state \<Rightarrow>
     on_resolve_result \<times> scan_state" where
  "onResolve h config entries e st =
     (let path = edgePath e in
      if externalRE path then (\<lparr>resPath = path, resExternal = True, resNamespace = None\<rparr>, st)
      else if dataUrlRE h path then
        (\<lparr>resPath = path, resExternal = True, resNamespace = None\<rparr>, st)
      else if virtualModuleRE h path then
        (\<lparr>resPath = removeFirst (virtualModulePrefix h) path, resExternal = False,
          resNamespace = Some ''script''\<rparr>, st)
      else
        (case (if htmlTypesRE path then htmlTypesOnResolve h e st else (None, st)) of
           (Some r, st1) \<Rightarrow> (r, st1)
         | (None, st1) \<Rightarrow>
             (case (if bareImportRE path then bareImportOnResolve h config entries e st1
                    else (None, st1)) of
                (Some r, st2) \<Rightarrow> (r, st2)
              | (None, st2) \<Rightarrow>
                  if cssJsonWasmRE path then (externalUnlessEntry entries path, st2)
                  else if knownAssetTypesRE h path then (externalUnlessEntry entries path, st2)
                  else if SPECIAL_QUERY_RE h path then
                    (\<lparr>resPath = path, resExternal = True, resNamespace = None\<rparr>, st2)
                  else catchAllOnResolve h entries e st2)))"

subsection \<open>The load hooks\<close>

text \<open>
  \<open>extractImportPaths\<close>: comments are emptied, then every match of \<open>importsRE\<close> adds an
  \<open>import\<close> of its source. The matcher of \<open>importsRE\<close> and the two comment expressions of
  \<open>../utils\<close> are the host's; nothing below depends on which imports they find.
\<close>

definition extractImportPaths :: "host \<Rightarrow> string \<Rightarrow> string" where
  "extractImportPaths h code =
     (let code' = singlelineCommentsRE_replace h (multilineCommentsRE_replace h code)
      in concat (map (\<lambda>m. newline # ''import '' @ m) (importsRE_matches h code')))"

text \<open>
  \<open>doTransformGlobImport\<close>: transpile unless the loader is \<open>js\<close>, expand the globs, and
  fall back on the transpiled text. The calls of \<open>resolve\<close> that the expansion makes are
  not traced in the state.
\<close>

definition doTransformGlobImport ::
  "host \<Rightarrow> resolved_config \<Rightarrow> string \<Rightarrow> string \<Rightarrow> string \<Rightarrow> string" where
  "doTransformGlobImport h config text modId ldr =
     (let transpiledContents = (if ldr \<noteq> ''js'' then esbuild_transform h text ldr else text)
      in case transformGlobImport h transpiledContents modId (config_root config) of
           Some result \<Rightarrow> if result \<noteq> [] then result else transpiledContents
         | None \<Rightarrow> transpiledContents)"

text \<open>
  The body of the loop over the script blocks of a markup file: \<open>js\<close> is the module
  synthesized so far, \<open>scriptId\<close> the counter of virtual modules, \<open>registry\<close> the object
  \<open>scripts\<close>. A block whose \<open>type\<close> is present and is neither \<open>module\<close> nor contains
  \<open>javascript\<close> or \<open>ecmascript\<close> is skipped (\<open>continue\<close>).
\<close>

record html_acc =
  js :: string
  scriptId :: nat
  registry :: "(string \<times> onload_result) list"

definition skippedType :: "string \<Rightarrow> bool" where
  "skippedType openTag =
     (case typeRE openTag of
        None \<Rightarrow> False
      | Some t \<Rightarrow> \<not> (str_includes t ''javascript'' \<or> str_includes t ''ecmascript'' \<or> t = ''module''))"

definition scriptLoader :: "string \<Rightarrow> string \<Rightarrow> string" where
  "scriptLoader path openTag =
     (case langRE openTag of
        None \<Rightarrow> if endsWith path ''.astro'' then ''ts'' else ''js''
      | Some lang \<Rightarrow>
          if lang = ''ts'' \<or> lang = ''tsx'' \<or> lang = ''jsx'' then lang
          else if endsWith path ''.astro'' then ''ts''
          else ''js'')"

definition processScript ::
  "host \<Rightarrow> resolved_config \<Rightarrow> string \<Rightarrow> html_acc \<Rightarrow> string \<times> string \<Rightarrow> html_acc" where
  "processScript h config path acc m =
     (let openTag = fst m; content = snd m in
      if skippedType openTag then acc
      else
        (let ldr = scriptLoader path openTag in
         case srcRE openTag of
           Some src \<Rightarrow> acc\<lparr>js := js acc @ ''import '' @ JSON_stringify src @ [newline]\<rparr>
         | None \<Rightarrow>
             if \<not> trimIsEmpty content then
               (let text = content @ (if startsWith ldr ''ts'' then extractImportPaths h content else []);
                    key = path @ ''?id='' @ showNat (scriptId acc);
                    script =
                      (if str_includes text ''import.meta.glob'' then
                         \<lparr>load_loader = ''js'',
                          load_contents = doTransformGlobImport h config text path ldr,
                          load_htmlType = Some ldr\<rparr>
                       else \<lparr>load_loader = ldr, load_contents = text, load_htmlType = Some ldr\<rparr>);
                    virtualModulePath = JSON_stringify (virtualModulePrefix h @ key)
                in acc\<lparr>js := js acc @
                           (if endsWith path ''.svelte'' \<and> contextRE openTag \<noteq> Some ''module''
                            then ''import '' else ''export * from '') @
                           virtualModulePath @ [newline],
                        scriptId := Suc (scriptId acc),
                        registry := obj_set (registry acc) key script\<rparr>)
             else acc))"

text \<open>
  The blocks whose body reaches the \<open>await\<close>: not skipped, without \<open>src\<close>, not blank, and
  with \<open>import.meta.glob\<close> in the contents.
\<close>

definition reachesAwait :: "host \<Rightarrow> string \<Rightarrow> string \<times> string \<Rightarrow> bool" where
  "reachesAwait h path m =
     (let openTag = fst m; content = snd m; ldr = scriptLoader path openTag in
      \<not> skippedType openTag \<and> srcRE openTag = None \<and> \<not> trimIsEmpty content \<and>
      str_includes
        (content @ (if startsWith ldr ''ts'' then extractImportPaths h content else []))
        ''import.meta.glob'')"

text \<open>
  The script blocks that the loop of one load visits, in the order of the visits: the
  comments are emptied, the expression is \<open>scriptModuleRE\<close> for a file whose name ends in
  \<open>.html\<close> and \<open>scriptRE\<close> for any other, \<open>lastIndex\<close> is set to 0 and the loop runs,
  with the interference of the other loads at its awaits.
\<close>

definition scriptVisits ::
  "host \<Rightarrow> string \<Rightarrow> string \<Rightarrow> nat option list \<Rightarrow> (string \<times> string) list" where
  "scriptVisits h path raw interference =
     (let text = replaceComments 0 raw
      in loopVisits (reachesAwait h path)
           (if endsWith path ''.html'' then scriptModuleRE_at else scriptRE_at)
           text interference text)"

text \<open>
  The successive matches of the expression in the file, from the start: what the loop
  visits when no other load moves \<open>lastIndex\<close> under it.
\<close>

definition scriptBlocks :: "string \<Rightarrow> string \<Rightarrow> (string \<times> string) list" where
  "scriptBlocks path raw =
     regexExecAll (if endsWith path ''.html'' then scriptModuleRE_at else scriptRE_at) 0
       (replaceComments 0 raw)"

text \<open>
  The load hook of the namespace \<open>html\<close>: the synthesized module and the registry after
  it. \<open>js\<close> and \<open>scriptId\<close> are variables of the call. The registry belongs to the
  build, and the keys that the other loads of the build write carry other paths;
  \<open>lastIndex\<close> is what the call shares with every load of a markup file that runs
  meanwhile.
\<close>

definition htmlOnLoad ::
  "host \<Rightarrow> resolved_config \<Rightarrow> string \<Rightarrow> (string \<times> onload_result) list \<Rightarrow> nat option list \<Rightarrow>
     onload_result \<times> (string \<times> onload_result) list" where
  "htmlOnLoad h config path reg interference =
     (let acc = foldl (processScript h config path) \<lparr>js = [], scriptId = 0, registry = reg\<rparr>
                  (scriptVisits h path (readFileSync h path) interference);
          js' = (if \<not> endsWith path ''.vue'' \<or> \<not> str_includes (js acc) ''export default''
                 then js acc @ newline # ''export default {}'' else js acc)
      in (\<lparr>load_loader = ''js'', load_contents = js', load_htmlType = None\<rparr>, registry acc))"

text \<open>The load hook for source files, filter \<open>JS_TYPES_RE\<close>.\<close>

definition jsOnLoad :: "host \<Rightarrow> resolved_config \<Rightarrow> string \<Rightarrow> onload_result" where
  "jsOnLoad h config modId =
     (let ext0 = drop 1 (path_extname h modId);
          ext = (if ext0 = ''mjs'' then ''js'' else ext0);
          text0 = readFileSync h modId;
          text = (if endsWith ext ''x'' \<and> truthyString (esbuild_jsxInject config)
                  then (case esbuild_jsxInject config of Some snippet \<Rightarrow> snippet | None \<Rightarrow> []) @
                       [newline] @ text0
                  else text0);
          ldr = (case esbuildOptions_loader config (''.'' @ ext) of
                   Some l \<Rightarrow> if l \<noteq> [] then l else ext
                 | None \<Rightarrow> ext)
      in if str_includes text ''import.meta.glob''
         then \<lparr>load_loader = ''js'', load_contents = doTransformGlobImport h config text modId ldr,
               load_htmlType = None\<rparr>
         else \<lparr>load_loader = ldr, load_contents = text, load_htmlType = None\<rparr>)"

text \<open>
  esbuild runs the load hooks whose filter and namespace match, in the order of their
  registration: the registry for the namespace \<open>script\<close>, the markup hook for the
  namespace \<open>html\<close>, the source hook for every namespace. A module that no hook loads is
  read from disk by esbuild itself.
\<close>

definition onLoad ::
  "host \<Rightarrow> resolved_config \<Rightarrow> nat \<Rightarrow> nat option list \<Rightarrow> string \<Rightarrow> string option \<Rightarrow> scan_state \<Rightarrow>
     onload_result option \<times> scan_state" where
  "onLoad h config b interference path namespace st =
     (case (if namespace = Some ''script'' then map_of (scripts st b) path else None) of
        Some script \<Rightarrow> (Some script, st)
      | None \<Rightarrow>
          if namespace = Some ''html'' \<and> htmlTypesRE path then
            (case htmlOnLoad h config path (scripts st b) interference of
               (res, reg) \<Rightarrow>
                 (Some res,
                  st\<lparr>scripts := (scripts st)(b := reg), fileReads := fileReads st @ [path]\<rparr>))
          else if JS_TYPES_RE h path then
            (Some (jsOnLoad h config path), st\<lparr>fileReads := fileReads st @ [path]\<rparr>)
          else (None, st\<lparr>fileReads := fileReads st @ [path]\<rparr>))"

subsection \<open>The crawl\<close>

text \<open>
  esbuild's part in one import edge: it resolves the edge with the plugin and, unless
  the result is external, loads the module the result names. The crawl of a scan is the
  sequence of edges that the builds visit.
\<close>

definition visitEdge ::
  "host \<Rightarrow> resolved_config \<Rightarrow> string list \<Rightarrow> scan_state \<Rightarrow> import_edge \<Rightarrow> scan_state" where
  "visitEdge h config entries st e =
     (case onResolve h config entries e st of
        (res, st') \<Rightarrow>
          if resExternal res then st'
          else snd (onLoad h config (edgeBuild e) (edgeInterference e) (resPath res)
                     (resNamespace res) st'))"

definition runCrawl ::
  "host \<Rightarrow> resolved_config \<Rightarrow> string list \<Rightarrow> import_edge list \<Rightarrow> scan_state \<Rightarrow> scan_state" where
  "runCrawl h config entries edges st = foldl (visitEdge h config entries) st edges"

subsection \<open>scanImports\<close>

definition orderedDependencies :: "(string \<Rightarrow> string \<Rightarrow> int) \<Rightarrow> js_object \<Rightarrow> js_object" where
  "orderedDependencies compare deps0 =
     (let depsList = Object_entries deps0;
          depsList' = array_sort (\<lambda>a b. compare (fst a) (fst b)) depsList
      in Object_fromEntries depsList')"

definition globEntries :: "host \<Rightarrow> resolved_config \<Rightarrow> js_value \<Rightarrow> string list" where
  "globEntries h config pattern =
     glob h pattern (config_root config)
       ([''**/node_modules/**'', ''**/'' @ build_outDir config @ ''/**''] @
        (if truthy (optimizeDeps_entries config) then []
         else [''**/__tests__/**'', ''**/coverage/**'']))"

text \<open>
  The errors a scan can end with: the one thrown for an unsupported
  \<open>rollupOptions.input\<close>, and the rejection of a build.
\<close>

datatype scan_error = InvalidRollupInput | BuildError string

record scan_result =
  deps :: js_object
  missing :: js_object

text \<open>
  A call of \<open>scanImports\<close>: what it returns or throws, the warnings it logs, and the entry
  points for which it calls \<open>build\<close>.
\<close>

record scan_outcome =
  returned :: "scan_error + scan_result"
  warnings :: "string list"
  builds :: "string list"

definition noEntryWarning :: string where
  "noEntryWarning =
     ''(!) Could not auto-determine entry point from rollupOptions or html files '' @
     ''and there are no explicit optimizeDeps.include patterns. '' @
     ''Skipping dependency pre-bundling.''"

text \<open>
  The entries before they are filtered: the three sources in their order of priority.
  \<open>typeof buildInput === 'string'\<close>, \<open>Array.isArray(buildInput)\<close> and \<open>isObject(buildInput)\<close>
  are the three shapes \<open>JString\<close>, \<open>JArray\<close> and \<open>JObject\<close>.
\<close>

definition findEntries :: "host \<Rightarrow> resolved_config \<Rightarrow> scan_error + string list" where
  "findEntries h config =
     (let explicitEntryPatterns = optimizeDeps_entries config;
          buildInput = rollupOptions_input config;
          resolvePath = path_resolve2 h (config_root config)
      in if truthy explicitEntryPatterns then Inr (globEntries h config explicitEntryPatterns)
         else if truthy buildInput then
           (case buildInput of
              JString p \<Rightarrow> Inr [resolvePath p]
            | JArray ps \<Rightarrow> Inr (map resolvePath ps)
            | JObject kvs \<Rightarrow> Inr (map resolvePath (Object_values kvs))
            | _ \<Rightarrow> Inl InvalidRollupInput)
         else Inr (globEntries h config (JString ''**/*.html'')))"

definition scanImports :: "host \<Rightarrow> resolved_config \<Rightarrow> scan_outcome" where
  "scanImports h config =
     (case findEntries h config of
        Inl err \<Rightarrow> \<lparr>returned = Inl err, warnings = [], builds = []\<rparr>
      | Inr found \<Rightarrow>
          (let entries = filter (\<lambda>entry. isScannable h entry \<and> existsSync h entry) found in
           if entries = [] then
             \<lparr>returned = Inr \<lparr>deps = [], missing = []\<rparr>,
              warnings =
                (if \<not> truthy (optimizeDeps_entries config) \<and> optimizeDeps_include config = None
                 then [noEntryWarning] else []),
              builds = []\<rparr>
           else
             (let run = crawl h entries;
                  st = runCrawl h config entries (crawlEdges run) initialState
              in case crawlError run of
                   Some msg \<Rightarrow> \<lparr>returned = Inl (BuildError msg), warnings = [], builds = entries\<rparr>
                 | None \<Rightarrow>
                     \<lparr>returned =
                        Inr \<lparr>deps = orderedDependencies (localeCompare h) (depImports st),
                             missing = missingImports st\<rparr>,
                      warnings = [], builds = entries\<rparr>)))"

text \<open>
  What the ordering of the result needs from \<open>localeCompare\<close>: on the set of keys at hand
  it compares any two keys, only equal keys compare as equal, and it is transitive.
\<close>

definition linearOn :: "('a \<Rightarrow> 'a \<Rightarrow> int) \<Rightarrow> 'a set \<Rightarrow> bool" where
  "linearOn compare S =
     (\<forall>a\<in>S. \<forall>b\<in>S.
        (compare a b \<le> 0 \<or> compare b a \<le> 0) \<and>
        (compare a b \<le> 0 \<and> compare b a \<le> 0 \<longrightarrow> a = b) \<and>
        (\<forall>c\<in>S. compare a b \<le> 0 \<and> compare b c \<le> 0 \<longrightarrow> compare a c \<le> 0))"

subsection \<open>What the markup hook extracts, block by block\<close>





text \<open>
  Shapes of documents, for the example of an entry with two script blocks: a text in
  which \<open><script\<close> does not occur (letters in any case), a text in which every \<open><!--\<close>
  is followed by a \<open>-->\<close>, and the two blocks of the example,
  \<open><script type="module" src="/src/main.ts"></script>\<close> and
  \<open><script type="module">console.log(1)</script>\<close>.
\<close>

definition noScriptTag :: "string \<Rightarrow> bool" where
  "noScriptTag s = (\<not> existsSuffix (\<lambda>p. startsWithCI p ''<script'') s)"

definition commentsClosed :: "string \<Rightarrow> bool" where
  "commentsClosed s =
     (\<not> existsSuffix (\<lambda>p. startsWith p ''<!--'' \<and> untilCommentEnd (drop 4 p) = None) s)"

definition moduleSrcTag :: string where
  "moduleSrcTag =
     ''<script type='' @ [dquote] @ ''module'' @ [dquote] @ '' src='' @ [dquote] @
     ''/src/main.ts'' @ [dquote] @ ''>''"

definition moduleInlineTag :: string where
  "moduleInlineTag = ''<script type='' @ [dquote] @ ''module'' @ [dquote] @ ''>''"

definition moduleSrcBlock :: string where
  "moduleSrcBlock = moduleSrcTag @ ''</script>''"

definition moduleInlineBlock :: string where
  "moduleInlineBlock = moduleInlineTag @ ''console.log(1)</script>''"

subsection \<open>A sample project\<close>

text \<open>
  One implementation of the host, for the examples: a project in \<open>/project\<close> on a POSIX
  file system whose only file on disk is described by \<open>sampleHtml\<close>, a resolver that
  knows a few packages, strings compared by code unit, and the helpers of \<open>../utils\<close> and
  \<open>../constants\<close> in a simple form.
\<close>

fun codeUnitCompare :: "string \<Rightarrow> string \<Rightarrow> int" where
  "codeUnitCompare [] [] = 0"
| "codeUnitCompare [] (y # ys) = - 1"
| "codeUnitCompare (x # xs) [] = 1"
| "codeUnitCompare (x # xs) (y # ys) =
     (if (of_char x :: nat) < of_char y then - 1
      else if (of_char y :: nat) < of_char x then 1
      else codeUnitCompare xs ys)"

definition sampleHtml :: string where
  "sampleHtml =
     ''<!DOCTYPE html><html><head><title>App</title></head><body><div id='' @ [dquote] @
     ''root'' @ [dquote] @ ''></div>'' @
     ''<script type='' @ [dquote] @ ''module'' @ [dquote] @ '' src='' @ [dquote] @
     ''/src/main.ts'' @ [dquote] @ ''></script>'' @
     ''<script type='' @ [dquote] @ ''module'' @ [dquote] @ ''>console.log(1)</script>'' @
     ''</body></html>''"


text \<open>
  Three more documents. \<open>sampleCommentedHtml\<close> holds the two blocks of the example
  behind a head with a script block that is commented out; \<open>sampleQuotedPath\<close> is a
  path with a double quote in it. \<open>sampleModuleHtml\<close> holds, in this order, a block whose
  tag has \<open>datatype="module"\<close> and no \<open>type\<close>, a block of type \<open>text/plain\<close> with
  \<open>data-type="module"\<close>, a blank block, a block with \<open>src\<close>, and a block without
  \<open>type\<close>. \<open>sampleGlobHtml\<close> holds an inline block that uses \<open>import.meta.glob\<close> and a
  block with \<open>src\<close>.
\<close>

definition sampleHead :: string where
  "sampleHead =
     ''<!DOCTYPE html><html><body><!-- <script type='' @ [dquote] @ ''module'' @ [dquote] @
     '' src='' @ [dquote] @ ''/old.ts'' @ [dquote] @ ''></script> --><div id='' @ [dquote] @
     ''root'' @ [dquote] @ ''></div>''"

definition sampleFoot :: string where
  "sampleFoot = ''</body></html>''"

definition sampleCommentedHtml :: string where
  "sampleCommentedHtml = sampleHead @ moduleSrcBlock @ [newline] @ moduleInlineBlock @ sampleFoot"

definition sampleQuotedPath :: string where
  "sampleQuotedPath = ''/project/my'' @ [dquote] @ ''app/index.html''"


definition sampleGlobHtml :: string where
  "sampleGlobHtml =
     ''<script type='' @ [dquote] @ ''module'' @ [dquote] @ ''>import.meta.glob('' @ [squote] @
       ''./x/*.js'' @ [squote] @ '')</script>'' @
     ''<script type='' @ [dquote] @ ''module'' @ [dquote] @ '' src='' @ [dquote] @ ''/b.js'' @
       [dquote] @ ''></script>''"

definition sampleResolveId :: "string \<Rightarrow> string option \<Rightarrow> resolve_options \<Rightarrow> string option" where
  "sampleResolveId modId importer options =
     (if modId = ''/project/index.html'' then Some ''/project/index.html''
      else if modId = ''react'' then Some ''/project/node_modules/react/index.js''
      else if modId = ''vue'' then Some ''/project/node_modules/vue/index.js''
      else if modId = ''100'' then Some ''/project/node_modules/100/index.js''
      else if modId = ''99'' then Some ''/project/node_modules/99/index.js''
      else if modId = ''q'' then Some ''/project/node_modules/q/index.js''
      else if modId = ''constructor'' then Some ''/project/node_modules/constructor/index.js''
      else if modId = ''widgets/Button.vue'' then Some ''/project/node_modules/widgets/Button.vue''
      else if modId = ''foo'' \<and> importer = Some ''/project/b/y.js''
        then Some ''/project/b/node_modules/foo/index.js''
      else None)"

definition sampleDirname :: "string \<Rightarrow> string" where
  "sampleDirname p = rev (drop 1 (dropWhile (\<lambda>c. c \<noteq> CHR ''/'') (rev p)))"

definition sampleHost :: host where
  "sampleHost =
     \<lparr>localeCompare = codeUnitCompare,
      resolveId = sampleResolveId,
      glob = (\<lambda>pattern cwd ignored. [''/project/index.html'']),
      existsSync = (\<lambda>p. p = ''/project/index.html''),
      readFileSync = (\<lambda>p. sampleHtml),
      path_resolve2 = (\<lambda>dir p. dir @ ''/'' @ p),
      path_resolve = (\<lambda>p. p),
      path_dirname = sampleDirname,
      path_isAbsolute = (\<lambda>p. startsWith p ''/''),
      path_extname = (\<lambda>p. rev (takeWhile (\<lambda>c. c \<noteq> CHR ''/'') (rev p))),
      normalizePath = (\<lambda>p. p),
      cleanUrl = (\<lambda>p. p),
      isOptimizable = (\<lambda>p. endsWith p ''.js''),
      moduleListContains = (\<lambda>ms x. list_ex (\<lambda>m. m = x \<or> startsWith x (m @ ''/'')) ms),
      dataUrlRE = (\<lambda>p. startsWithCI (dropWhile isSpace p) ''data:''),
      virtualModuleRE = (\<lambda>p. startsWith p ''virtual-module:''),
      virtualModulePrefix = ''virtual-module:'',
      JS_TYPES_RE = (\<lambda>p. list_ex (endsWith p) [''.js'', ''.jsx'', ''.ts'', ''.tsx'', ''.mjs'']),
      knownAssetTypesRE = (\<lambda>p. list_ex (endsWith p) [''.png'', ''.svg'']),
      SPECIAL_QUERY_RE = (\<lambda>p. str_includes p ''?raw'' \<or> str_includes p ''?worker''),
      multilineCommentsRE_replace = (\<lambda>code. code),
      singlelineCommentsRE_replace = (\<lambda>code. code),
      importsRE_matches = (\<lambda>code. []),
      esbuild_transform = (\<lambda>code ldr. code),
      transformGlobImport = (\<lambda>code modId dir. None),
      crawl = (\<lambda>entries. \<lparr>crawlEdges = [], crawlError = None\<rparr>)\<rparr>"

definition sampleConfig :: resolved_config where
  "sampleConfig =
     \<lparr>config_root = ''/project'',
      optimizeDeps_entries = JUndefined,
      optimizeDeps_include = None,
      optimizeDeps_exclude = None,
      rollupOptions_input = JUndefined,
      build_outDir = ''dist'',
      esbuild_jsxInject = None,
      esbuildOptions_loader = (\<lambda>ext. None)\<rparr>"

definition sampleEdge :: "string \<Rightarrow> string \<Rightarrow> import_edge" where
  "sampleEdge path importer =
     \<lparr>edgeBuild = 0, edgePath = path, edgeImporter = importer, edgeLoader = None,
      edgeInterference = []\<rparr>"

section \<open>Properties\<close>

subsection \<open>Objects, the resolve facade and the effect of the hooks\<close>

lemma map_fst_obj_set:
  "map fst (obj_set obj k v) = (if k \<in> set (map fst obj) then map fst obj else map fst obj @ [k])"
  by (induction obj) (auto simp: rev_image_eqI)

lemma keys_obj_set: "set (map fst (obj_set obj k v)) = insert k (set (map fst obj))"
  by (auto simp: map_fst_obj_set)

lemma map_of_obj_set: "map_of (obj_set obj k v) k' = (if k' = k then Some v else map_of obj k')"
  by (induction obj) auto

lemma distinct_obj_set: "distinct (map fst obj) \<Longrightarrow> distinct (map fst (obj_set obj k v))"
  by (simp add: map_fst_obj_set)

lemma resolve_frame:
  "resolve h i imp opts st = (r, st') \<Longrightarrow>
     depImports st' = depImports st \<and> missingImports st' = missingImports st \<and>
     scripts st' = scripts st \<and> fileReads st' = fileReads st"
  by (auto simp: resolve_def resolve_begin_def resolve_end_def Let_def split: option.splits)

lemma resolve_again:
  "resolve h i imp o2 (snd (resolve h i imp o1 st)) = resolve h i imp o1 st"
  by (auto simp: resolve_def resolve_begin_def resolve_end_def Let_def map_of_obj_set split: option.splits)

lemma htmlTypesOnResolve_frame:
  "htmlTypesOnResolve h e st = (r, st') \<Longrightarrow>
     depImports st' = depImports st \<and> missingImports st' = missingImports st \<and>
     scripts st' = scripts st \<and> fileReads st' = fileReads st"
  by (auto simp: htmlTypesOnResolve_def split: prod.splits option.splits if_splits dest: resolve_frame)

lemma catchAllOnResolve_frame:
  "catchAllOnResolve h entries e st = (r, st') \<Longrightarrow>
     depImports st' = depImports st \<and> missingImports st' = missingImports st \<and>
     scripts st' = scripts st \<and> fileReads st' = fileReads st"
  by (auto simp: catchAllOnResolve_def Let_def split: prod.splits option.splits if_splits dest: resolve_frame)

lemma bareImportOnResolve_effect:
  "bareImportOnResolve h config entries e st = (r, st') \<Longrightarrow>
     scripts st' = scripts st \<and> fileReads st' = fileReads st \<and>
     (depImports st' = depImports st \<or>
        (\<exists>p. depImports st' = obj_set (depImports st) (edgePath e) p \<and> p \<noteq> [] \<and>
             \<not> moduleListContains h (exclude config) (edgePath e))) \<and>
     (missingImports st' = missingImports st \<or>
        (missingImports st' = obj_set (missingImports st) (edgePath e) (normalizePath h (edgeImporter e)) \<and>
             \<not> moduleListContains h (exclude config) (edgePath e)))"
  by (auto simp: bareImportOnResolve_def Let_def split: prod.splits option.splits if_splits dest: resolve_frame)


lemma onResolve_effect:
  "onResolve h config entries e st = (r, st') \<Longrightarrow>
     scripts st' = scripts st \<and> fileReads st' = fileReads st \<and>
     (depImports st' = depImports st \<or>
        (\<exists>p. depImports st' = obj_set (depImports st) (edgePath e) p \<and> p \<noteq> [] \<and>
             \<not> externalRE (edgePath e) \<and>
             \<not> moduleListContains h (exclude config) (edgePath e))) \<and>
     (missingImports st' = missingImports st \<or>
        (missingImports st' = obj_set (missingImports st) (edgePath e) (normalizePath h (edgeImporter e)) \<and>
             \<not> externalRE (edgePath e) \<and>
             \<not> moduleListContains h (exclude config) (edgePath e)))"
  unfolding onResolve_def Let_def
  by (auto split: prod.splits option.splits if_splits
      dest!: htmlTypesOnResolve_frame catchAllOnResolve_frame bareImportOnResolve_effect)

lemma onLoad_frame:
  "onLoad h config b intf path ns st = (r, st') \<Longrightarrow>
     depImports st' = depImports st \<and> missingImports st' = missingImports st"
  by (auto simp: onLoad_def split: prod.splits option.splits if_splits)

lemma visitEdge_effect:
  "(depImports (visitEdge h config entries st e) = depImports st \<or>
        (\<exists>p. depImports (visitEdge h config entries st e) = obj_set (depImports st) (edgePath e) p \<and> p \<noteq> [] \<and>
             \<not> externalRE (edgePath e) \<and>
             \<not> moduleListContains h (exclude config) (edgePath e))) \<and>
     (missingImports (visitEdge h config entries st e) = missingImports st \<or>
        (missingImports (visitEdge h config entries st e) = obj_set (missingImports st) (edgePath e) (normalizePath h (edgeImporter e)) \<and>
             \<not> externalRE (edgePath e) \<and>
             \<not> moduleListContains h (exclude config) (edgePath e)))"
proof -
  obtain r st' where o: "onResolve h config entries e st = (r, st')"
    by (cases "onResolve h config entries e st")
  obtain l st'' where l: "onLoad h config (edgeBuild e) (edgeInterference e) (resPath r) (resNamespace r) st' = (l, st'')"
    by (cases "onLoad h config (edgeBuild e) (edgeInterference e) (resPath r) (resNamespace r) st'")
  have v: "depImports (visitEdge h config entries st e) = depImports st' \<and>
           missingImports (visitEdge h config entries st e) = missingImports st'"
    using o l onLoad_frame[OF l] by (simp add: visitEdge_def)
  show ?thesis using onResolve_effect[OF o] v by simp
qed



lemma runCrawl_keys:
  assumes "\<forall>k \<in> set (map fst (depImports st)) \<union> set (map fst (missingImports st)).
             \<not> externalRE k \<and> \<not> moduleListContains h (exclude config) k"
  shows "\<forall>k \<in> set (map fst (depImports (runCrawl h config entries edges st))) \<union>
               set (map fst (missingImports (runCrawl h config entries edges st))).
             \<not> externalRE k \<and> \<not> moduleListContains h (exclude config) k"
  using assms
proof (induction edges arbitrary: st)
  case Nil
  then show ?case by (simp add: runCrawl_def)
next
  case (Cons e edges)
  have "\<forall>k \<in> set (map fst (depImports (visitEdge h config entries st e))) \<union>
               set (map fst (missingImports (visitEdge h config entries st e))).
             \<not> externalRE k \<and> \<not> moduleListContains h (exclude config) k"
    using visitEdge_effect[of h config entries st e] Cons.prems
    by (auto simp: keys_obj_set simp del: set_map)
  from Cons.IH[OF this] show ?case by (simp add: runCrawl_def)
qed

lemma runCrawl_distinct:
  "distinct (map fst (depImports st)) \<Longrightarrow>
   distinct (map fst (depImports (runCrawl h config entries edges st)))"
proof (induction edges arbitrary: st)
  case Nil
  then show ?case by (simp add: runCrawl_def)
next
  case (Cons e edges)
  have "distinct (map fst (depImports (visitEdge h config entries st e)))"
    using visitEdge_effect[of h config entries st e] Cons.prems
    by (auto simp: distinct_obj_set)
  from Cons.IH[OF this] show ?case by (simp add: runCrawl_def)
qed

lemma set_array_insert: "set (array_insert c x ys) = insert x (set ys)"
  by (induction ys) auto

lemma set_array_sort: "set (array_sort c xs) = set xs"
  by (induction xs) (auto simp: array_sort_def set_array_insert)

lemma set_Object_entries: "set (Object_entries obj) = set obj"
  by (auto simp: Object_entries_def)

lemma keys_foldl_obj_set:
  "set (map fst (foldl (\<lambda>obj p. obj_set obj (fst p) (snd p)) acc es)) =
     set (map fst acc) \<union> set (map fst es)"
  by (induction es arbitrary: acc) (auto simp: keys_obj_set simp del: set_map)

lemma keys_orderedDependencies:
  "set (map fst (orderedDependencies c d)) = set (map fst d)"
  by (simp add: orderedDependencies_def Let_def Object_fromEntries_def keys_foldl_obj_set
      set_array_sort set_Object_entries del: set_map) (simp add: set_array_sort set_Object_entries)

lemma set_Object_keys: "set (Object_keys obj) = set (map fst obj)"
  by (simp add: Object_keys_def set_Object_entries)

lemma scanImports_Inr:
  assumes "returned (scanImports h config) = Inr r"
  shows "(deps r = [] \<and> missing r = []) \<or>
         (\<exists>entries edges. deps r = orderedDependencies (localeCompare h)
              (depImports (runCrawl h config entries edges initialState)) \<and>
            missing r = missingImports (runCrawl h config entries edges initialState))"
proof (cases "findEntries h config")
  case (Inl err)
  then show ?thesis using assms by (simp add: scanImports_def)
next
  case (Inr found)
  define entries where "entries = filter (\<lambda>entry. isScannable h entry \<and> existsSync h entry) found"
  show ?thesis
  proof (cases "entries = []")
    case True
    then have "r = \<lparr>deps = [], missing = []\<rparr>"
      using assms Inr by (simp add: scanImports_def entries_def)
    then show ?thesis by simp
  next
    case False
    then have "r = \<lparr>deps = orderedDependencies (localeCompare h)
                 (depImports (runCrawl h config entries (crawlEdges (crawl h entries)) initialState)),
               missing = missingImports (runCrawl h config entries (crawlEdges (crawl h entries)) initialState)\<rparr>"
      using assms Inr
      by (auto simp: scanImports_def entries_def Let_def split: option.splits)
    then have "deps r = orderedDependencies (localeCompare h)
                 (depImports (runCrawl h config entries (crawlEdges (crawl h entries)) initialState)) \<and>
               missing r = missingImports (runCrawl h config entries (crawlEdges (crawl h entries)) initialState)"
      by simp
    then show ?thesis by blast
  qed
qed

lemma resolve_cached:
  "map_of (seen st) (resolveKey h k imp) = Some v \<Longrightarrow> resolve h k imp opts st = (v, st)"
  by (simp add: resolve_def resolve_begin_def)

lemma resolve_seen:
  "resolve h k imp opts st = (v, st') \<Longrightarrow> map_of (seen st') (resolveKey h k imp) = Some v"
  by (auto simp: resolve_def resolve_begin_def resolve_end_def Let_def map_of_obj_set
      split: option.splits)

lemma resolve_seen_frame:
  "resolve h k imp opts st = (v, st') \<Longrightarrow>
     depImports st' = depImports st \<and> missingImports st' = missingImports st \<and>
     fileReads st' = fileReads st \<and> scripts st' = scripts st \<and>
     map_of (seen st') (resolveKey h k imp) = Some v"
  using resolve_frame[of h k imp opts st v st'] resolve_seen[of h k imp opts st v st'] by simp

lemma resolve_calls:
  "length (resolveIdCalls (snd (resolve h k imp opts st))) \<le> Suc (length (resolveIdCalls st))"
  by (simp add: resolve_def resolve_begin_def resolve_end_def Let_def split: option.splits)

lemma start_then_resume:
  assumes "n < length calls" "awaiting run = []" "map_of (finished run) n = None"
  shows "stepResolve h calls (stepResolve h calls run (CallStart n)) (CallResume n) =
         run\<lparr>runState := snd (resolve h (callId (calls ! n)) (callImporter (calls ! n))
                              (callOptions (calls ! n)) (runState run)),
             finished := finished run @
               [(n, fst (resolve h (callId (calls ! n)) (callImporter (calls ! n))
                              (callOptions (calls ! n)) (runState run)))]\<rparr>"
proof (cases "map_of (seen (runState run))
                (resolveKey h (callId (calls ! n)) (callImporter (calls ! n)))")
  case None
  then show ?thesis
    using assms
    by (simp add: resolve_def resolve_begin_def resolve_end_def Let_def)
next
  case (Some v)
  then show ?thesis
    using assms
    by (simp add: resolve_def resolve_begin_def resolve_end_def Let_def map_of_eq_None_iff)
qed

text \<open>The definitions that evaluate the sample project and the hooks.\<close>

lemmas sample_defs =
  sampleHost_def sampleConfig_def sampleEdge_def sampleResolveId_def sampleDirname_def
  initialState_def

lemmas hook_defs =
  onResolve_def htmlTypesOnResolve_def bareImportOnResolve_def catchAllOnResolve_def
  resolve_def resolve_begin_def resolve_end_def resolveKey_def externalRE_def htmlTypesRE_def
  cssJsonWasmRE_def isScannable_def shouldExternalizeDep_def exclude_def includeContains_def
  externalUnlessEntry_def obj_truthy_def objectPrototypeKeys_def endsWith_def isWordChar_def
  isSpace_def asciiLower_def Let_def

subsection \<open>Sorting and the order of keys\<close>

lemma linearOn_total:
  "linearOn c S \<Longrightarrow> a \<in> S \<Longrightarrow> b \<in> S \<Longrightarrow> c a b \<le> 0 \<or> c b a \<le> 0"
  unfolding linearOn_def by blast

lemma linearOn_antisym:
  "linearOn c S \<Longrightarrow> a \<in> S \<Longrightarrow> b \<in> S \<Longrightarrow> c a b \<le> 0 \<Longrightarrow> c b a \<le> 0 \<Longrightarrow> a = b"
  unfolding linearOn_def by blast

lemma linearOn_trans:
  "linearOn c S \<Longrightarrow> a \<in> S \<Longrightarrow> b \<in> S \<Longrightarrow> d \<in> S \<Longrightarrow> c a b \<le> 0 \<Longrightarrow> c b d \<le> 0 \<Longrightarrow> c a d \<le> 0"
  unfolding linearOn_def by blast

lemma linearOn_subset: "linearOn c S \<Longrightarrow> T \<subseteq> S \<Longrightarrow> linearOn c T"
  unfolding linearOn_def by blast

lemma linearOn_pairs:
  assumes lin: "linearOn c (fst ` E)" and inj: "inj_on fst E"
  shows "linearOn (\<lambda>a b. c (fst a) (fst b)) E"
  unfolding linearOn_def
proof (intro ballI conjI impI)
  fix a b assume a: "a \<in> E" and b: "b \<in> E"
  show "c (fst a) (fst b) \<le> 0 \<or> c (fst b) (fst a) \<le> 0"
    using linearOn_total[OF lin] a b by simp
  show "a = b" if "c (fst a) (fst b) \<le> 0 \<and> c (fst b) (fst a) \<le> 0"
  proof -
    have "fst a = fst b" using linearOn_antisym[OF lin, of "fst a" "fst b"] a b that by simp
    then show ?thesis using inj a b by (simp add: inj_on_def)
  qed
  fix d assume d: "d \<in> E"
  show "c (fst a) (fst d) \<le> 0" if "c (fst a) (fst b) \<le> 0 \<and> c (fst b) (fst d) \<le> 0"
    using linearOn_trans[OF lin, of "fst a" "fst b" "fst d"] a b d that by simp
qed

lemma sorted_array_insert:
  assumes lin: "linearOn c S" and x: "x \<in> S"
  shows "set ys \<subseteq> S \<Longrightarrow> sorted_wrt (\<lambda>a b. c a b \<le> 0) ys \<Longrightarrow>
         sorted_wrt (\<lambda>a b. c a b \<le> 0) (array_insert c x ys)"
proof (induction ys)
  case Nil
  then show ?case by simp
next
  case (Cons y ys)
  have y: "y \<in> S" and ys: "set ys \<subseteq> S" using Cons.prems(1) by simp_all
  have sorted: "sorted_wrt (\<lambda>a b. c a b \<le> 0) ys" and least: "\<forall>z\<in>set ys. c y z \<le> 0"
    using Cons.prems(2) by simp_all
  show ?case
  proof (cases "c x y \<le> 0")
    case True
    have "c x z \<le> 0" if "z \<in> set ys" for z
    proof -
      have "z \<in> S" using that ys by blast
      moreover have "c y z \<le> 0" using least that by blast
      ultimately show ?thesis using linearOn_trans[OF lin x y _ True] by blast
    qed
    then show ?thesis using True Cons.prems(2) by simp
  next
    case False
    then have yx: "c y x \<le> 0" using linearOn_total[OF lin x y] by simp
    have "sorted_wrt (\<lambda>a b. c a b \<le> 0) (array_insert c x ys)"
      using Cons.IH[OF ys sorted] .
    then show ?thesis using False yx least by (simp add: set_array_insert)
  qed
qed

lemma array_sort_Cons: "array_sort c (x # xs) = array_insert c x (array_sort c xs)"
  by (simp add: array_sort_def)

lemma sorted_array_sort:
  assumes lin: "linearOn c S"
  shows "set xs \<subseteq> S \<Longrightarrow> sorted_wrt (\<lambda>a b. c a b \<le> 0) (array_sort c xs)"
proof (induction xs)
  case Nil
  then show ?case by (simp add: array_sort_def)
next
  case (Cons x xs)
  have x: "x \<in> S" and xs: "set xs \<subseteq> S" using Cons.prems by simp_all
  have "set (array_sort c xs) \<subseteq> S" using xs by (simp add: set_array_sort)
  then show ?case
    using sorted_array_insert[OF lin x _ Cons.IH[OF xs]] by (simp add: array_sort_Cons)
qed

lemma distinct_array_insert: "distinct (array_insert c x ys) = (x \<notin> set ys \<and> distinct ys)"
  by (induction ys) (auto simp: set_array_insert)

lemma distinct_array_sort: "distinct (array_sort c xs) = distinct xs"
proof (induction xs)
  case Nil
  then show ?case by (simp add: array_sort_def)
next
  case (Cons x xs)
  then show ?case by (simp add: array_sort_Cons distinct_array_insert set_array_sort)
qed

lemma sorted_wrt_unique:
  assumes lin: "linearOn c S"
  shows "set xs \<subseteq> S \<Longrightarrow> sorted_wrt (\<lambda>a b. c a b \<le> 0) xs \<Longrightarrow>
         sorted_wrt (\<lambda>a b. c a b \<le> 0) ys \<Longrightarrow> distinct xs \<Longrightarrow> distinct ys \<Longrightarrow>
         set xs = set ys \<Longrightarrow> xs = ys"
proof (induction xs arbitrary: ys)
  case Nil
  then show ?case by simp
next
  case (Cons x xs)
  then obtain y ys' where ys: "ys = y # ys'" by (cases ys) auto
  have xS: "x \<in> S" and xsS: "set xs \<subseteq> S" using Cons.prems(1) by simp_all
  have yS: "y \<in> S" using Cons.prems(1,6) ys by auto
  have xy: "x = y"
  proof (rule ccontr)
    assume ne: "x \<noteq> y"
    then have "x \<in> set ys'" using Cons.prems(6) ys by auto
    then have 1: "c y x \<le> 0" using Cons.prems(3) ys by simp
    have "y \<in> set xs" using ne Cons.prems(6) ys by auto
    then have 2: "c x y \<le> 0" using Cons.prems(2) by simp
    show False using linearOn_antisym[OF lin xS yS 2 1] ne by simp
  qed
  have sets: "set xs = set ys'"
    using Cons.prems(4,5,6) ys xy by auto
  have "xs = ys'"
    using Cons.IH[OF xsS _ _ _ _ sets] Cons.prems(2,3,4,5) ys by simp
  then show ?case using xy ys by simp
qed

lemma obj_set_fresh: "k \<notin> set (map fst obj) \<Longrightarrow> obj_set obj k v = obj @ [(k, v)]"
  by (induction obj) auto

lemma foldl_obj_set_distinct:
  "distinct (map fst (acc @ es)) \<Longrightarrow>
   foldl (\<lambda>obj p. obj_set obj (fst p) (snd p)) acc es = acc @ es"
proof (induction es arbitrary: acc)
  case Nil
  then show ?case by simp
next
  case (Cons e es)
  have "obj_set acc (fst e) (snd e) = acc @ [e]"
    using Cons.prems by (simp add: obj_set_fresh)
  moreover have "distinct (map fst ((acc @ [e]) @ es))" using Cons.prems by simp
  ultimately show ?case using Cons.IH[of "acc @ [e]"] by simp
qed

lemma Object_fromEntries_distinct:
  "distinct (map fst es) \<Longrightarrow> Object_fromEntries es = es"
  using foldl_obj_set_distinct[of "[]" es] by (simp add: Object_fromEntries_def)

lemma distinct_Object_entries:
  assumes "distinct (map fst obj)"
  shows "distinct (map fst (Object_entries obj))"
proof -
  have d: "distinct obj" and i: "inj_on fst (set obj)"
    using assms by (simp_all add: distinct_map)
  have "distinct (Object_entries obj)"
    using d by (auto simp: Object_entries_def)
  then show ?thesis using i by (simp add: distinct_map set_Object_entries)
qed

lemma orderedDependencies_sorted_list:
  assumes "distinct (map fst d)"
  shows "orderedDependencies c d = array_sort (\<lambda>a b. c (fst a) (fst b)) (Object_entries d)"
    and "distinct (map fst (orderedDependencies c d))"
    and "set (orderedDependencies c d) = set d"
proof -
  let ?A = "array_sort (\<lambda>a b. c (fst a) (fst b)) (Object_entries d)"
  have dE: "distinct (map fst (Object_entries d))" using assms by (rule distinct_Object_entries)
  then have "distinct (Object_entries d)" "inj_on fst (set (Object_entries d))"
    by (simp_all add: distinct_map)
  then have dA: "distinct (map fst ?A)"
    by (simp add: distinct_map distinct_array_sort set_array_sort)
  then have "Object_fromEntries ?A = ?A" by (rule Object_fromEntries_distinct)
  then show eq: "orderedDependencies c d = ?A" by (simp add: orderedDependencies_def)
  show "distinct (map fst (orderedDependencies c d))" using eq dA by simp
  show "set (orderedDependencies c d) = set d"
    using eq by (simp add: set_array_sort set_Object_entries)
qed

lemma scanImports_deps_form:
  assumes "returned (scanImports h config) = Inr r"
  shows "\<exists>d. distinct (map fst d) \<and> deps r = orderedDependencies (localeCompare h) d"
proof -
  have e: "orderedDependencies (localeCompare h) [] = []"
    by (simp add: orderedDependencies_def Object_entries_def array_sort_def Object_fromEntries_def)
  from scanImports_Inr[OF assms] show ?thesis
  proof
    assume "deps r = [] \<and> missing r = []"
    then have "distinct (map fst ([] :: js_object)) \<and> deps r = orderedDependencies (localeCompare h) []"
      using e by simp
    then show ?thesis by blast
  next
    assume "\<exists>entries edges. deps r = orderedDependencies (localeCompare h)
              (depImports (runCrawl h config entries edges initialState)) \<and>
            missing r = missingImports (runCrawl h config entries edges initialState)"
    then obtain entries edges where
      d: "deps r = orderedDependencies (localeCompare h)
              (depImports (runCrawl h config entries edges initialState))" by blast
    have "distinct (map fst (depImports (runCrawl h config entries edges initialState)))"
      by (rule runCrawl_distinct) (simp add: initialState_def)
    then show ?thesis using d by blast
  qed
qed

lemma deps_sorted:
  assumes scan: "returned (scanImports h config) = Inr r"
    and lin: "linearOn (localeCompare h) S" and keys: "set (map fst (deps r)) \<subseteq> S"
  shows "sorted_wrt (\<lambda>a b. localeCompare h (fst a) (fst b) \<le> 0) (deps r)"
    and "distinct (map fst (deps r))"
    and "linearOn (\<lambda>a b. localeCompare h (fst a) (fst b)) (set (deps r))"
proof -
  obtain d where d: "distinct (map fst d)" "deps r = orderedDependencies (localeCompare h) d"
    using scanImports_deps_form[OF scan] by blast
  let ?c = "\<lambda>a b. localeCompare h (fst a) (fst b)"
  have f1: "deps r = array_sort ?c (Object_entries d)"
    using orderedDependencies_sorted_list(1)[OF d(1), of "localeCompare h"] d(2) by simp
  show f2: "distinct (map fst (deps r))"
    using orderedDependencies_sorted_list(2)[OF d(1), of "localeCompare h"] d(2) by simp
  have f3: "set (deps r) = set d"
    using orderedDependencies_sorted_list(3)[OF d(1), of "localeCompare h"] d(2) by simp
  have "linearOn (localeCompare h) (fst ` set (deps r))"
    using linearOn_subset[OF lin] keys by simp
  moreover have "inj_on fst (set (deps r))" using f2 by (simp add: distinct_map)
  ultimately show pl: "linearOn ?c (set (deps r))" by (rule linearOn_pairs)
  have "set (Object_entries d) \<subseteq> set (deps r)" using f3 by (simp add: set_Object_entries)
  then have "sorted_wrt (\<lambda>a b. ?c a b \<le> 0) (array_sort ?c (Object_entries d))"
    using sorted_array_sort[OF pl] by blast
  then show "sorted_wrt (\<lambda>a b. ?c a b \<le> 0) (deps r)" using f1 by simp
qed

lemma filter_Object_keys:
  "filter (\<lambda>k. \<not> isArrayIndex k) (Object_keys obj) = filter (\<lambda>k. \<not> isArrayIndex k) (map fst obj)"
  "filter isArrayIndex (Object_keys obj) =
     map fst (sort_key (\<lambda>p. decimalValue (fst p)) (filter (\<lambda>p. isArrayIndex (fst p)) obj))"
proof -
  let ?ix = "sort_key (\<lambda>p. decimalValue (fst p)) (filter (\<lambda>p. isArrayIndex (fst p)) obj)"
  have 1: "filter (\<lambda>p. \<not> isArrayIndex (fst p)) ?ix = []"
    by (simp add: filter_sort)
  have 2: "filter (\<lambda>p. isArrayIndex (fst p)) ?ix = ?ix"
    by (simp add: filter_sort)
  show "filter (\<lambda>k. \<not> isArrayIndex k) (Object_keys obj) = filter (\<lambda>k. \<not> isArrayIndex k) (map fst obj)"
    using 1 by (simp add: Object_keys_def Object_entries_def filter_map comp_def)
  show "filter isArrayIndex (Object_keys obj) = map fst ?ix"
    using 2 by (simp add: Object_keys_def Object_entries_def filter_map comp_def)
qed

lemmas scan_defs =
  scanImports_def findEntries_def globEntries_def runCrawl_def visitEdge_def onLoad_def
  orderedDependencies_def Object_entries_def Object_keys_def Object_fromEntries_def
  array_sort_def isArrayIndex_def isDigit_def decimalValue_def digitValue_def

subsection \<open>The script blocks of a markup file\<close>


lemma startsWith_append: "startsWith x p \<Longrightarrow> startsWith (x @ y) p"
  by (induction x p rule: startsWith.induct) auto















lemma execUntilAwait_noAwait:
  "list_all (\<lambda>m. \<not> aw m) (regexExecAll matchAt skip s) \<Longrightarrow>
   execUntilAwait aw matchAt skip s = (regexExecAll matchAt skip s, None)"
  by (induction s arbitrary: skip) (auto split: option.splits if_splits)

lemma loopVisits_noAwait:
  "list_all (\<lambda>m. \<not> aw m) (regexExecAll matchAt 0 s) \<Longrightarrow>
   loopVisits aw matchAt raw interference s = regexExecAll matchAt 0 s"
  by (cases interference) (simp_all add: execUntilAwait_noAwait)








text \<open>Matches of \<open>scriptModuleRE\<close> in a text put together from parts.\<close>

lemma startsWithCI_straddle:
  "asciiLower c \<notin> set (tl pat) \<Longrightarrow> p \<noteq> [] \<Longrightarrow> startsWithCI (p @ c # s) pat \<Longrightarrow>
   startsWithCI p pat"
proof (induction p arbitrary: pat)
  case Nil
  then show ?case by simp
next
  case (Cons x xs)
  show ?case
  proof (cases pat)
    case Nil
    then show ?thesis by simp
  next
    case pat: (Cons q qs)
    have notin: "asciiLower c \<notin> set qs" using Cons.prems(1) pat by simp
    have hd: "asciiLower x = q" and rest: "startsWithCI (xs @ c # s) qs"
      using Cons.prems(3) pat by simp_all
    have "startsWithCI xs qs"
    proof (cases xs)
      case Nil
      then show ?thesis using rest notin by (cases qs) simp_all
    next
      case (Cons y ys)
      have "asciiLower c \<notin> set (tl qs)" using notin by (cases qs) simp_all
      then show ?thesis using Cons.IH[of qs] rest Cons by simp
    qed
    then show ?thesis using hd pat by simp
  qed
qed

lemma scriptModuleRE_at_None: "\<not> startsWithCI s ''<script'' \<Longrightarrow> scriptModuleRE_at s = None"
  by (simp add: scriptModuleRE_at_def)

lemma lower_lt: "asciiLower (CHR ''<'') \<notin> set (tl ''<script'')"
  by (simp add: asciiLower_def)

lemma regexExecAll_noScriptTag_prefix:
  "noScriptTag pre \<Longrightarrow>
   regexExecAll scriptModuleRE_at 0 (pre @ CHR ''<'' # s) =
   regexExecAll scriptModuleRE_at 0 (CHR ''<'' # s)"
proof (induction pre)
  case Nil
  then show ?case by simp
next
  case (Cons x xs)
  have here: "\<not> startsWithCI (x # xs) ''<script''" and later: "noScriptTag xs"
    using Cons.prems by (simp_all add: noScriptTag_def)
  have "\<not> startsWithCI ((x # xs) @ CHR ''<'' # s) ''<script''"
    using startsWithCI_straddle[OF lower_lt, of "x # xs" s] here by blast
  then have "scriptModuleRE_at (x # xs @ CHR ''<'' # s) = None"
    by (simp add: scriptModuleRE_at_None)
  then show ?case using Cons.IH[OF later] by simp
qed

lemma regexExecAll_noScriptTag:
  "noScriptTag post \<Longrightarrow> regexExecAll scriptModuleRE_at 0 post = []"
proof (induction post)
  case Nil
  then show ?case by simp
next
  case (Cons x xs)
  have here: "\<not> startsWithCI (x # xs) ''<script''" and later: "noScriptTag xs"
    using Cons.prems by (simp_all add: noScriptTag_def)
  show ?case using Cons.IH[OF later] scriptModuleRE_at_None[OF here] by simp
qed

lemma regexExecAll_skip:
  "regexExecAll matchAt (length p + k) (p @ s) = regexExecAll matchAt k s"
  by (induction p) simp_all

lemma regexExecAll_block:
  assumes "matchAt (b @ r) = Some m" and "b \<noteq> []"
    and "length b = length (fst m) + length (snd m) + 9"
  shows "regexExecAll matchAt 0 (b @ r) = m # regexExecAll matchAt 0 r"
proof -
  obtain c cs where b: "b = c # cs" using assms(2) by (cases b) auto
  have len: "8 + (length (fst m) + length (snd m)) = length cs + 0"
    using assms(3) b by simp
  have "regexExecAll matchAt 0 (b @ r) =
        m # regexExecAll matchAt (8 + (length (fst m) + length (snd m))) (cs @ r)"
    using assms(1) unfolding b by simp
  then show ?thesis unfolding len regexExecAll_skip .
qed

lemmas block_defs =
  moduleSrcBlock_def moduleInlineBlock_def moduleSrcTag_def moduleInlineTag_def
  scriptModuleRE_at_def typeModuleAt_def isWordChar_def isSpace_def asciiLower_def
  dquote_def squote_def Let_def

lemma moduleSrcBlock_match:
  "scriptModuleRE_at (moduleSrcBlock @ s) = Some (moduleSrcTag, [])"
  by (simp add: block_defs)

lemma moduleInlineBlock_match:
  "scriptModuleRE_at (moduleInlineBlock @ s) = Some (moduleInlineTag, ''console.log(1)'')"
  by (simp add: block_defs)

lemma moduleSrcBlock_Cons: "moduleSrcBlock = CHR ''<'' # tl moduleSrcBlock"
  by (simp add: moduleSrcBlock_def moduleSrcTag_def)

lemma moduleInlineBlock_Cons: "moduleInlineBlock = CHR ''<'' # tl moduleInlineBlock"
  by (simp add: moduleInlineBlock_def moduleInlineTag_def)

lemma two_blocks:
  assumes "noScriptTag pre" "noScriptTag mid" "noScriptTag post"
  shows "regexExecAll scriptModuleRE_at 0
           (pre @ moduleSrcBlock @ mid @ moduleInlineBlock @ post) =
         [(moduleSrcTag, []), (moduleInlineTag, ''console.log(1)'')]"
proof -
  let ?r2 = "moduleInlineBlock @ post"
  let ?r1 = "mid @ ?r2"
  have s1: "regexExecAll scriptModuleRE_at 0 (pre @ moduleSrcBlock @ ?r1) =
            regexExecAll scriptModuleRE_at 0 (moduleSrcBlock @ ?r1)"
    using regexExecAll_noScriptTag_prefix[OF assms(1), of "tl moduleSrcBlock @ ?r1"]
      moduleSrcBlock_Cons by (metis append_Cons)
  have s2: "regexExecAll scriptModuleRE_at 0 (moduleSrcBlock @ ?r1) =
            (moduleSrcTag, []) # regexExecAll scriptModuleRE_at 0 ?r1"
    by (rule regexExecAll_block[of scriptModuleRE_at moduleSrcBlock ?r1, OF moduleSrcBlock_match])
       (simp_all add: moduleSrcBlock_def)
  have s3: "regexExecAll scriptModuleRE_at 0 (mid @ ?r2) =
            regexExecAll scriptModuleRE_at 0 ?r2"
    using regexExecAll_noScriptTag_prefix[OF assms(2), of "tl moduleInlineBlock @ post"]
      moduleInlineBlock_Cons by (metis append_Cons)
  have s4: "regexExecAll scriptModuleRE_at 0 (moduleInlineBlock @ post) =
            (moduleInlineTag, ''console.log(1)'') # regexExecAll scriptModuleRE_at 0 post"
    by (rule regexExecAll_block[of scriptModuleRE_at moduleInlineBlock post, OF moduleInlineBlock_match])
       (simp_all add: moduleInlineBlock_def)
  show ?thesis
    unfolding s1 s2 s3 s4 regexExecAll_noScriptTag[OF assms(3)] by (rule refl)
qed

text \<open>Comments in a text put together from parts.\<close>

lemma startsWith_straddle:
  "c \<notin> set (tl pat) \<Longrightarrow> p \<noteq> [] \<Longrightarrow> startsWith (p @ c # s) pat \<Longrightarrow> startsWith p pat"
proof (induction p arbitrary: pat)
  case Nil
  then show ?case by simp
next
  case (Cons x xs)
  show ?case
  proof (cases pat)
    case Nil
    then show ?thesis by simp
  next
    case pat: (Cons q qs)
    have notin: "c \<notin> set qs" using Cons.prems(1) pat by simp
    have hd: "x = q" and rest: "startsWith (xs @ c # s) qs"
      using Cons.prems(3) pat by simp_all
    have "startsWith xs qs"
    proof (cases xs)
      case Nil
      then show ?thesis using rest notin by (cases qs) simp_all
    next
      case (Cons y ys)
      have "c \<notin> set (tl qs)" using notin by (cases qs) simp_all
      then show ?thesis using Cons.IH[of qs] rest Cons by simp
    qed
    then show ?thesis using hd pat by simp
  qed
qed

lemma untilCommentEnd_length: "untilCommentEnd u = Some n \<Longrightarrow> n + 3 \<le> length u"
proof (induction u arbitrary: n)
  case Nil
  then show ?case by simp
next
  case (Cons c cs)
  show ?case
  proof (cases "startsWith (c # cs) ''-->''")
    case True
    then have "3 \<le> length (c # cs)"
      by (cases cs; cases "tl cs") auto
    then show ?thesis using True Cons.prems by simp
  next
    case False
    then obtain k where k: "untilCommentEnd cs = Some k" and n: "n = Suc k"
      using Cons.prems by auto
    show ?thesis using Cons.IH[OF k] n by simp
  qed
qed

lemma startsWith_within:
  "startsWith (p @ z) pat \<Longrightarrow> length pat \<le> length p \<Longrightarrow> startsWith p pat"
  by (induction p pat rule: startsWith.induct) auto

lemma untilCommentEnd_append:
  "untilCommentEnd u = Some n \<Longrightarrow> untilCommentEnd (u @ z) = Some n"
proof (induction u arbitrary: n)
  case Nil
  then show ?case by simp
next
  case (Cons c cs)
  show ?case
  proof (cases "startsWith (c # cs) ''-->''")
    case True
    then have "startsWith ((c # cs) @ z) ''-->''" by (rule startsWith_append)
    then show ?thesis using True Cons.prems by simp
  next
    case False
    then obtain k where k: "untilCommentEnd cs = Some k" and n: "n = Suc k"
      using Cons.prems by auto
    have "3 \<le> length (c # cs)" using untilCommentEnd_length[OF k] by simp
    then have "\<not> startsWith ((c # cs) @ z) ''-->''"
      using False startsWith_within[of "c # cs" z "''-->''"] by auto
    then show ?thesis using Cons.IH[OF k] n by simp
  qed
qed

lemma commentsClosed_Cons:
  "commentsClosed (c # cs) \<Longrightarrow> commentsClosed cs"
  by (simp add: commentsClosed_def)

lemma replaceComments_append_gen:
  assumes z: "\<And>p. p \<noteq> [] \<Longrightarrow> startsWith (p @ z) ''<!--'' \<Longrightarrow> startsWith p ''<!--''"
  shows "commentsClosed x \<Longrightarrow> skip \<le> length x \<Longrightarrow>
   replaceComments skip (x @ z) = replaceComments skip x @ replaceComments 0 z"
proof (induction x arbitrary: skip)
  case Nil
  then show ?case by simp
next
  case (Cons c cs)
  note closed = commentsClosed_Cons[OF Cons.prems(1)]
  show ?case
  proof (cases "0 < skip")
    case True
    then show ?thesis using Cons.IH[OF closed, of "skip - 1"] Cons.prems(2) by simp
  next
    case skip0: False
    show ?thesis
    proof (cases "startsWith (c # cs) ''<!--''")
      case True
      then have app: "startsWith ((c # cs) @ z) ''<!--''"
        by (rule startsWith_append)
      have "untilCommentEnd (drop 4 (c # cs)) \<noteq> None"
        using Cons.prems(1) True by (simp add: commentsClosed_def)
      then obtain n where n: "untilCommentEnd (drop 4 (c # cs)) = Some n" by auto
      have len4: "4 \<le> length (c # cs)"
        using True by (cases cs; cases "tl cs"; cases "tl (tl cs)") auto
      have drop: "drop 4 ((c # cs) @ z) = drop 4 (c # cs) @ z"
        using len4 by simp
      have n': "untilCommentEnd (drop 4 ((c # cs) @ z)) = Some n"
        unfolding drop using n by (rule untilCommentEnd_append)
      have "n + 3 \<le> length (drop 4 (c # cs))" using n by (rule untilCommentEnd_length)
      then have le: "4 + n + 3 - 1 \<le> length cs" using len4 by simp
      have l: "replaceComments skip ((c # cs) @ z) =
               ''<!---->'' @ replaceComments (4 + n + 3 - 1) (cs @ z)"
        using skip0 app n' by (simp del: drop_Suc_Cons startsWith.simps)
      have r: "replaceComments skip (c # cs) = ''<!---->'' @ replaceComments (4 + n + 3 - 1) cs"
        using skip0 True n by (simp del: drop_Suc_Cons startsWith.simps)
      show ?thesis unfolding l r Cons.IH[OF closed le] by simp
    next
      case False
      have nst: "\<not> startsWith ((c # cs) @ z) ''<!--''"
        using False z[of "c # cs"] by blast
      have l: "replaceComments skip ((c # cs) @ z) = c # replaceComments 0 (cs @ z)"
        using skip0 nst by (simp del: startsWith.simps)
      have r: "replaceComments skip (c # cs) = c # replaceComments 0 cs"
        using skip0 False by (simp del: startsWith.simps)
      show ?thesis unfolding l r Cons.IH[OF closed, of 0, simplified] by simp
    qed
  qed
qed

lemma replaceComments_append:
  assumes "commentsClosed x"
  shows "replaceComments 0 (x @ CHR ''<'' # y) =
         replaceComments 0 x @ replaceComments 0 (CHR ''<'' # y)"
proof (rule replaceComments_append_gen)
  show "startsWith p ''<!--''" if "p \<noteq> []" "startsWith (p @ CHR ''<'' # y) ''<!--''" for p
    using that startsWith_straddle[of "CHR ''<''" "''<!--''" p y] by simp
qed (simp_all add: assms)

lemma replaceComments_moduleSrcBlock:
  "replaceComments 0 (moduleSrcBlock @ y) = moduleSrcBlock @ replaceComments 0 y"
  by (simp add: moduleSrcBlock_def moduleSrcTag_def dquote_def)

lemma replaceComments_moduleInlineBlock:
  "replaceComments 0 (moduleInlineBlock @ y) = moduleInlineBlock @ replaceComments 0 y"
  by (simp add: moduleInlineBlock_def moduleInlineTag_def dquote_def)

lemma replaceComments_two_blocks:
  assumes "commentsClosed pre" "commentsClosed mid"
  shows "replaceComments 0 (pre @ moduleSrcBlock @ mid @ moduleInlineBlock @ post) =
         replaceComments 0 pre @ moduleSrcBlock @ replaceComments 0 mid @ moduleInlineBlock @
         replaceComments 0 post"
proof -
  have "replaceComments 0 (mid @ moduleInlineBlock @ post) =
        replaceComments 0 mid @ replaceComments 0 (moduleInlineBlock @ post)"
    using replaceComments_append[OF assms(2), of "tl moduleInlineBlock @ post"]
      moduleInlineBlock_Cons by (metis append_Cons)
  moreover have "replaceComments 0 (pre @ moduleSrcBlock @ r) =
        replaceComments 0 pre @ replaceComments 0 (moduleSrcBlock @ r)" for r
    using replaceComments_append[OF assms(1), of "tl moduleSrcBlock @ r"]
      moduleSrcBlock_Cons by (metis append_Cons)
  ultimately show ?thesis
    by (simp add: replaceComments_moduleSrcBlock replaceComments_moduleInlineBlock)
qed

text \<open>The load of a document whose text, once the comments are emptied, holds the two blocks.\<close>

lemma startsWith_other: "startsWith s (a # p) \<Longrightarrow> a \<noteq> b \<Longrightarrow> \<not> startsWith s (b # q)"
  by (cases s) auto

lemma html_not_other:
  assumes "endsWith path ''.html''"
  shows "\<not> endsWith path ''.vue''" "\<not> endsWith path ''.svelte''" "\<not> endsWith path ''.astro''"
  using assms startsWith_other[of "rev path" "CHR ''l''" "''mth.''"]
  by (simp_all add: endsWith_def)

lemma moduleTags:
  "typeRE moduleSrcTag = Some ''module''" "srcRE moduleSrcTag = Some ''/src/main.ts''"
  "typeRE moduleInlineTag = Some ''module''" "srcRE moduleInlineTag = None"
  "langRE moduleInlineTag = None" "langRE moduleSrcTag = None"
  by code_simp+

lemma htmlOnLoad_two_blocks:
  assumes html: "endsWith path ''.html''"
    and doc: "replaceComments 0 (readFileSync h path) =
                pre @ moduleSrcBlock @ mid @ moduleInlineBlock @ post"
    and free: "noScriptTag pre" "noScriptTag mid" "noScriptTag post"
  shows "htmlOnLoad h config path reg interference =
     (\<lparr>load_loader = ''js'',
       load_contents =
         ''import '' @ [dquote] @ ''/src/main.ts'' @ [dquote] @ [newline] @
         ''export * from '' @ JSON_stringify (virtualModulePrefix h @ path @ ''?id=0'') @
         [newline] @ [newline] @ ''export default {}'',
       load_htmlType = None\<rparr>,
      obj_set reg (path @ ''?id=0'')
        \<lparr>load_loader = ''js'', load_contents = ''console.log(1)'', load_htmlType = Some ''js''\<rparr>)"
proof -
  let ?bs = "[(moduleSrcTag, []), (moduleInlineTag, ''console.log(1)'')]"
  have blocks: "scriptBlocks path (readFileSync h path) = ?bs"
    using html two_blocks[OF free] by (simp add: scriptBlocks_def doc)
  have quiet: "list_all (\<lambda>m. \<not> reachesAwait h path m) ?bs"
    using html_not_other[OF html]
    by (simp add: reachesAwait_def moduleTags scriptLoader_def skippedType_def Let_def)
  have visits: "scriptVisits h path (readFileSync h path) interference = ?bs"
    using loopVisits_noAwait[of "reachesAwait h path"
        "if endsWith path ''.html'' then scriptModuleRE_at else scriptRE_at"
        "replaceComments 0 (readFileSync h path)" "replaceComments 0 (readFileSync h path)" interference]
      blocks quiet
    by (simp add: scriptVisits_def scriptBlocks_def)
  have src: "JSON_stringify ''/src/main.ts'' = [dquote] @ ''/src/main.ts'' @ [dquote]"
    by code_simp
  show ?thesis
    using html_not_other[OF html]
    by (simp add: htmlOnLoad_def visits processScript_def moduleTags scriptLoader_def
          skippedType_def trimIsEmpty_def isSpace_def src Let_def)
qed

lemma sample_commented:
  "endsWith sampleQuotedPath ''.html''"
  "commentsClosed sampleHead" "commentsClosed [newline]"
  "noScriptTag (replaceComments 0 sampleHead)" "noScriptTag (replaceComments 0 [newline])"
  "noScriptTag (replaceComments 0 sampleFoot)"
  "\<not> noScriptTag sampleHead"
  "JSON_stringify (virtualModulePrefix (sampleHost\<lparr>readFileSync := (\<lambda>p. sampleCommentedHtml)\<rparr>) @
     sampleQuotedPath @ ''?id=0'') =
   [dquote] @ ''virtual-module:/project/my'' @ [CHR 0x5C, dquote] @ ''app/index.html?id=0'' @ [dquote]"
  by code_simp+


subsection \<open>Remote URLs\<close>

text \<open>
  C7. A specifier in a remote URL form (\<open>http://\<close>, \<open>https://\<close> or protocol-relative) is
  answered by the first resolve hook: the edge is marked external and the state stays
  as it is, so esbuild loads nothing for it and no file is read. Whatever edges a crawl
  visits, such a specifier is never a key of \<open>depImports\<close> or \<open>missing\<close>, nor of the \<open>deps\<close>
  and \<open>missing\<close> that \<open>scanImports\<close> returns.
\<close>

theorem external_url_never_followed:
  assumes "externalRE k" and "edgePath e = k"
  shows "onResolve h config entries e st =
           (\<lparr>resPath = k, resExternal = True, resNamespace = None\<rparr>, st) \<and>
         visitEdge h config entries st e = st \<and>
         k \<notin> set (map fst (depImports (runCrawl h config entries edges initialState))) \<and>
         k \<notin> set (map fst (missingImports (runCrawl h config entries edges initialState))) \<and>
         (\<forall>r. returned (scanImports h config) = Inr r \<longrightarrow>
              k \<notin> set (Object_keys (deps r)) \<and> k \<notin> set (Object_keys (missing r)))"
proof -
  have hook: "onResolve h config entries e st =
           (\<lparr>resPath = k, resExternal = True, resNamespace = None\<rparr>, st)"
    using assms by (simp add: onResolve_def)
  then have visit: "visitEdge h config entries st e = st"
    by (simp add: visitEdge_def)
  have inv: "\<And>entries' edges'. \<forall>k \<in> set (map fst (depImports (runCrawl h config entries' edges' initialState))) \<union>
               set (map fst (missingImports (runCrawl h config entries' edges' initialState))).
             \<not> externalRE k \<and> \<not> moduleListContains h (exclude config) k"
    by (rule runCrawl_keys) (simp add: initialState_def)
  have crawl: "\<And>entries' edges'. k \<notin> set (map fst (depImports (runCrawl h config entries' edges' initialState))) \<and>
         k \<notin> set (map fst (missingImports (runCrawl h config entries' edges' initialState)))"
    using inv assms(1) by blast
  have scan: "k \<notin> set (Object_keys (deps r)) \<and> k \<notin> set (Object_keys (missing r))"
    if "returned (scanImports h config) = Inr r" for r
    using scanImports_Inr[OF that] crawl
    by (auto simp: set_Object_keys keys_orderedDependencies simp del: set_map)
  show ?thesis using hook visit crawl scan by blast
qed

theorem external_url_never_followed_witness:
  "externalRE ''https://cdn.example.com/x.js'' \<and>
   onResolve sampleHost sampleConfig [''/project/index.html'']
     (sampleEdge ''https://cdn.example.com/x.js'' ''/project/src/main.ts'') initialState =
     (\<lparr>resPath = ''https://cdn.example.com/x.js'', resExternal = True, resNamespace = None\<rparr>,
      initialState) \<and>
   visitEdge sampleHost sampleConfig [''/project/index.html''] initialState
     (sampleEdge ''https://cdn.example.com/x.js'' ''/project/src/main.ts'') = initialState \<and>
   ''https://cdn.example.com/x.js'' \<notin>
     set (map fst (depImports (runCrawl sampleHost sampleConfig [''/project/index.html'']
       [sampleEdge ''react'' ''/project/src/main.ts'',
        sampleEdge ''https://cdn.example.com/x.js'' ''/project/src/main.ts''] initialState)))"
proof -
  have url: "externalRE ''https://cdn.example.com/x.js''"
    by (simp add: externalRE_def)
  have edge: "edgePath (sampleEdge ''https://cdn.example.com/x.js'' ''/project/src/main.ts'') =
      ''https://cdn.example.com/x.js''"
    by (simp add: sampleEdge_def)
  show ?thesis
    using url external_url_never_followed [OF url edge, of sampleHost sampleConfig
        "[''/project/index.html'']" initialState
        "[sampleEdge ''react'' ''/project/src/main.ts'',
          sampleEdge ''https://cdn.example.com/x.js'' ''/project/src/main.ts'']"]
    by blast
qed

subsection \<open>The excluded specifiers of the dev client\<close>

text \<open>
  C10. The effective exclude list is the configured \<open>optimizeDeps.exclude\<close> followed by
  \<open>@vite/client\<close> and \<open>@vite/env\<close>. Provided \<open>moduleListContains\<close> holds of every member of
  a list, a bare import of one of the two is answered by the hook for bare imports with
  \<open>externalUnlessEntry\<close> (external unless the specifier is itself an entry) and leaves the
  state as it is; and whatever edges a crawl visits, neither is ever a key of
  \<open>depImports\<close>, nor of the \<open>deps\<close> that \<open>scanImports\<close> returns.
\<close>

theorem vite_client_excluded:
  assumes k: "k = ''@vite/client'' \<or> k = ''@vite/env''"
    and members: "\<forall>ms x. x \<in> set ms \<longrightarrow> moduleListContains h ms x"
    and edge: "edgePath e = k"
    and filters: "\<not> dataUrlRE h k" "\<not> virtualModuleRE h k"
  shows "exclude config =
           (case optimizeDeps_exclude config of None \<Rightarrow> [] | Some xs \<Rightarrow> xs) @
           [''@vite/client'', ''@vite/env''] \<and>
         onResolve h config entries e st = (externalUnlessEntry entries k, st) \<and>
         resExternal (fst (onResolve h config entries e st)) = (k \<notin> set entries) \<and>
         k \<notin> set (map fst (depImports (runCrawl h config entries edges initialState))) \<and>
         (\<forall>r. returned (scanImports h config) = Inr r \<longrightarrow> k \<notin> set (Object_keys (deps r)))"
proof -
  have listed: "k \<in> set (exclude config)"
    using k by (auto simp: exclude_def)
  then have excluded: "moduleListContains h (exclude config) k"
    using members by blast
  have shape: "\<not> externalRE k \<and> \<not> htmlTypesRE k \<and> bareImportRE k"
    using k by (auto simp: externalRE_def htmlTypesRE_def endsWith_def isWordChar_def)
  have hook: "onResolve h config entries e st = (externalUnlessEntry entries k, st)"
    using shape excluded filters edge
    by (simp add: onResolve_def bareImportOnResolve_def)
  have inv: "\<And>entries' edges'. \<forall>k \<in> set (map fst (depImports (runCrawl h config entries' edges' initialState))) \<union>
               set (map fst (missingImports (runCrawl h config entries' edges' initialState))).
             \<not> externalRE k \<and> \<not> moduleListContains h (exclude config) k"
    by (rule runCrawl_keys) (simp add: initialState_def)
  have crawl: "\<And>entries' edges'. k \<notin> set (map fst (depImports (runCrawl h config entries' edges' initialState)))"
    using inv excluded by blast
  have scan: "k \<notin> set (Object_keys (deps r))"
    if "returned (scanImports h config) = Inr r" for r
    using scanImports_Inr[OF that] crawl
    by (auto simp: set_Object_keys keys_orderedDependencies simp del: set_map)
  show ?thesis
    using hook crawl scan by (simp add: exclude_def externalUnlessEntry_def)
qed

theorem vite_client_excluded_witness:
  "moduleListContains sampleHost [''lodash'', ''@vite/client'', ''@vite/env''] ''@vite/client'' \<and>
   \<not> dataUrlRE sampleHost ''@vite/client'' \<and> \<not> virtualModuleRE sampleHost ''@vite/client'' \<and>
   exclude (sampleConfig\<lparr>optimizeDeps_exclude := Some [''lodash'']\<rparr>) =
     [''lodash'', ''@vite/client'', ''@vite/env''] \<and>
   onResolve sampleHost (sampleConfig\<lparr>optimizeDeps_exclude := Some [''lodash'']\<rparr>)
     [''/project/index.html''] (sampleEdge ''@vite/client'' ''/project/src/main.ts'') initialState =
     (\<lparr>resPath = ''@vite/client'', resExternal = True, resNamespace = None\<rparr>, initialState)"
proof -
  have members: "\<forall>ms x. x \<in> set ms \<longrightarrow> moduleListContains sampleHost ms x"
    by (auto simp: sampleHost_def list_ex_iff)
  have filters: "\<not> dataUrlRE sampleHost ''@vite/client''" "\<not> virtualModuleRE sampleHost ''@vite/client''"
    by (simp_all add: sampleHost_def isSpace_def asciiLower_def)
  have edge: "edgePath (sampleEdge ''@vite/client'' ''/project/src/main.ts'') = ''@vite/client''"
    by (simp add: sampleEdge_def)
  show ?thesis
    using members filters
      vite_client_excluded [OF _ members edge filters,
        of "sampleConfig\<lparr>optimizeDeps_exclude := Some [''lodash'']\<rparr>" "[''/project/index.html'']"
           initialState "[]"]
    by (simp add: sampleConfig_def externalUnlessEntry_def)
qed

subsection \<open>Bare imports that do not resolve\<close>

text \<open>
  C3, as the claim states it, fails: resolution is keyed by the importer's directory, so
  a specifier that does not resolve from one directory is recorded in \<open>missing\<close> and can
  still resolve from another and be recorded in \<open>deps\<close>. In the sample project \<open>foo\<close>
  resolves from \<open>/project/b\<close> only; after the two edges the scan returns it in both maps.
\<close>

theorem unresolved_bare_import_recorded_counterexample:
  "\<not> truthyString (fst (resolve sampleHost ''foo'' (Some ''/project/a/x.js'') (DepScan None)
          initialState)) \<and>
   returned (scanImports
      (sampleHost\<lparr>crawl := (\<lambda>entries.
         \<lparr>crawlEdges = [sampleEdge ''foo'' ''/project/a/x.js'', sampleEdge ''foo'' ''/project/b/y.js''],
          crawlError = None\<rparr>)\<rparr>)
      sampleConfig) =
     Inr \<lparr>deps = [(''foo'', ''/project/b/node_modules/foo/index.js'')],
          missing = [(''foo'', ''/project/a/x.js'')]\<rparr>"
  by (simp add: sample_defs hook_defs scanImports_def findEntries_def globEntries_def
      runCrawl_def visitEdge_def onLoad_def orderedDependencies_def Object_entries_def
      Object_fromEntries_def array_sort_def isArrayIndex_def isDigit_def)

text \<open>
  C3, amended. For a bare specifier that reaches the resolution step of the hook for
  bare imports (not excluded, no truthy entry in \<open>depImports\<close>) and whose resolution
  through the facade fails, the edge records the specifier in \<open>missing\<close> with the
  normalized importer, leaves \<open>depImports\<close> as it was (so the edge itself adds nothing
  to it), reads no file and ends with a result for the raw specifier that is external
  unless the specifier is an entry. The hooks are total: no branch of them throws.
\<close>

theorem unresolved_bare_import_recorded:
  assumes edge: "edgePath e = k"
    and bare: "bareImportRE k"
    and filters: "\<not> externalRE k" "\<not> dataUrlRE h k" "\<not> virtualModuleRE h k"
    and fresh: "\<not> moduleListContains h (exclude config) k" "\<not> obj_truthy (depImports st) k"
    and fails: "\<forall>opts. \<not> truthyString (fst (resolve h k (Some (edgeImporter e)) opts st))"
  shows "map_of (missingImports (snd (onResolve h config entries e st))) k =
           Some (normalizePath h (edgeImporter e)) \<and>
         depImports (snd (onResolve h config entries e st)) = depImports st \<and>
         \<not> obj_truthy (depImports (snd (onResolve h config entries e st))) k \<and>
         fileReads (snd (onResolve h config entries e st)) = fileReads st \<and>
         resPath (fst (onResolve h config entries e st)) = k \<and>
         resNamespace (fst (onResolve h config entries e st)) = None \<and>
         (resExternal (fst (onResolve h config entries e st)) \<or> k \<in> set entries)"
proof -
  obtain v1 st1 where r1: "resolve h k (Some (edgeImporter e)) NoOptions st = (v1, st1)"
    by (cases "resolve h k (Some (edgeImporter e)) NoOptions st")
  have v1: "\<not> truthyString v1" using fails r1 by (metis fst_conv)
  note f1 = resolve_seen_frame[OF r1]
  obtain v2 st2 where r2: "resolve h k (Some (edgeImporter e)) (DepScan (edgeLoader e)) st = (v2, st2)"
    by (cases "resolve h k (Some (edgeImporter e)) (DepScan (edgeLoader e)) st")
  have v2: "\<not> truthyString v2" using fails r2 by (metis fst_conv)
  note f2 = resolve_seen_frame[OF r2]
  have html: "htmlTypesOnResolve h e st = (None, st1)"
    using r1 v1 edge by (auto simp: htmlTypesOnResolve_def split: option.splits)
  define miss where "miss st' = st'\<lparr>missingImports :=
      obj_set (missingImports st') k (normalizePath h (edgeImporter e))\<rparr>" for st' :: scan_state
  have bareHook: "bareImportOnResolve h config entries e st' = (None, miss st'')"
    if "resolve h k (Some (edgeImporter e)) (DepScan (edgeLoader e)) st' = (v, st'')"
      and "\<not> truthyString v" and "depImports st' = depImports st" for st' st'' v
    using that edge fresh by (simp add: bareImportOnResolve_def miss_def)
  have rest: "resPath res = k \<and> resNamespace res = None \<and> (resExternal res \<or> k \<in> set entries) \<and>
      depImports st'' = depImports st \<and> fileReads st'' = fileReads st \<and>
      map_of (missingImports st'') k = Some (normalizePath h (edgeImporter e))"
    if seen: "map_of (seen st') (resolveKey h k (Some (edgeImporter e))) = Some v"
      and v: "\<not> truthyString v"
      and frame: "depImports st' = depImports st" "fileReads st' = fileReads st"
      and out: "(if cssJsonWasmRE k then (externalUnlessEntry entries k, miss st')
                 else if knownAssetTypesRE h k then (externalUnlessEntry entries k, miss st')
                 else if SPECIAL_QUERY_RE h k then
                    (\<lparr>resPath = k, resExternal = True, resNamespace = None\<rparr>, miss st')
                 else catchAllOnResolve h entries e (miss st')) = (res, st'')"
    for st' st'' v res
  proof -
    have "map_of (seen (miss st')) (resolveKey h k (Some (edgeImporter e))) = Some v"
      using seen by (simp add: miss_def)
    then have "resolve h k (Some (edgeImporter e)) (DepScan (edgeLoader e)) (miss st') = (v, miss st')"
      by (rule resolve_cached)
    then have "catchAllOnResolve h entries e (miss st') = (externalUnlessEntry entries k, miss st')"
      using v edge by (simp add: catchAllOnResolve_def)
    then show ?thesis
      using out frame
      by (auto simp: externalUnlessEntry_def miss_def map_of_obj_set split: if_splits)
  qed
  obtain res st' where o: "onResolve h config entries e st = (res, st')"
    by (cases "onResolve h config entries e st")
  have "resPath res = k \<and> resNamespace res = None \<and> (resExternal res \<or> k \<in> set entries) \<and>
      depImports st' = depImports st \<and> fileReads st' = fileReads st \<and>
      map_of (missingImports st') k = Some (normalizePath h (edgeImporter e))"
  proof (cases "htmlTypesRE k")
    case True
    have again: "resolve h k (Some (edgeImporter e)) (DepScan (edgeLoader e)) st1 = (v1, st1)"
      using f1 by (simp add: resolve_cached)
    have b: "bareImportOnResolve h config entries e st1 = (None, miss st1)"
      using bareHook[OF again v1] f1 by simp
    show ?thesis
      using o True edge bare filters html b
      by (intro rest[of st1 v1]) (use f1 v1 in \<open>simp_all add: onResolve_def\<close>)
  next
    case False
    have b: "bareImportOnResolve h config entries e st = (None, miss st2)"
      using bareHook[OF r2 v2] by simp
    show ?thesis
      using o False edge bare filters b
      by (intro rest[of st2 v2]) (use f2 v2 in \<open>simp_all add: onResolve_def\<close>)
  qed
  then show ?thesis using o fresh(2) by simp
qed

theorem unresolved_bare_import_recorded_witness:
  "bareImportRE ''foo'' \<and>
   \<not> moduleListContains sampleHost (exclude sampleConfig) ''foo'' \<and>
   \<not> obj_truthy (depImports initialState) ''foo'' \<and>
   (\<forall>opts. \<not> truthyString (fst (resolve sampleHost ''foo'' (Some ''/project/a/x.js'') opts
      initialState))) \<and>
   map_of (missingImports (snd (onResolve sampleHost sampleConfig [''/project/index.html'']
          (sampleEdge ''foo'' ''/project/a/x.js'') initialState))) ''foo'' =
     Some ''/project/a/x.js'' \<and>
   depImports (snd (onResolve sampleHost sampleConfig [''/project/index.html'']
          (sampleEdge ''foo'' ''/project/a/x.js'') initialState)) = [] \<and>
   resExternal (fst (onResolve sampleHost sampleConfig [''/project/index.html'']
          (sampleEdge ''foo'' ''/project/a/x.js'') initialState))"
proof -
  let ?e = "sampleEdge ''foo'' ''/project/a/x.js''"
  have edge: "edgePath ?e = ''foo''"
    by (simp add: sampleEdge_def)
  have bare: "bareImportRE ''foo''"
    by (simp add: isWordChar_def)
  have filters: "\<not> externalRE ''foo''" "\<not> dataUrlRE sampleHost ''foo''"
      "\<not> virtualModuleRE sampleHost ''foo''"
    by (simp_all add: sample_defs hook_defs)
  have fresh: "\<not> moduleListContains sampleHost (exclude sampleConfig) ''foo''"
      "\<not> obj_truthy (depImports initialState) ''foo''"
    by (simp_all add: sample_defs hook_defs)
  have fails: "\<forall>opts. \<not> truthyString
      (fst (resolve sampleHost ''foo'' (Some (edgeImporter ?e)) opts initialState))"
    by (simp add: sample_defs hook_defs)
  have importer: "edgeImporter ?e = ''/project/a/x.js''" "normalizePath sampleHost ''/project/a/x.js'' = ''/project/a/x.js''"
    "''foo'' \<notin> set [''/project/index.html'']" "depImports initialState = []"
    by (simp_all add: sample_defs)
  show ?thesis
    using unresolved_bare_import_recorded [OF edge bare filters fresh fails,
        of "[''/project/index.html'']"]
      bare fresh fails importer
    by simp
qed

subsection \<open>Bare imports that resolve into node_modules\<close>

text \<open>
  C4, as the claim states it, fails: the hook for markup files is registered before the
  hook for bare imports and keeps every markup file that is not both inside
  \<open>node_modules\<close> and optimizable. In the sample project the bare specifier
  \<open>widgets/Button.vue\<close> resolves to an absolute path under \<open>node_modules\<close>; the edge is not
  externalized but handed to the namespace \<open>html\<close>, and the file is read.
\<close>

theorem bare_import_in_node_modules_counterexample:
  "bareImportRE ''widgets/Button.vue'' \<and>
   fst (resolve sampleHost ''widgets/Button.vue'' (Some ''/project/src/main.ts'') (DepScan None)
          initialState) = Some ''/project/node_modules/widgets/Button.vue'' \<and>
   path_isAbsolute sampleHost ''/project/node_modules/widgets/Button.vue'' \<and>
   str_includes ''/project/node_modules/widgets/Button.vue'' ''node_modules'' \<and>
   fst (onResolve sampleHost sampleConfig [''/project/index.html'']
          (sampleEdge ''widgets/Button.vue'' ''/project/src/main.ts'') initialState) =
     \<lparr>resPath = ''/project/node_modules/widgets/Button.vue'', resExternal = False,
      resNamespace = Some ''html''\<rparr> \<and>
   fileReads (visitEdge sampleHost sampleConfig [''/project/index.html''] initialState
          (sampleEdge ''widgets/Button.vue'' ''/project/src/main.ts'')) =
     [''/project/node_modules/widgets/Button.vue'']"
  by (simp add: sample_defs hook_defs visitEdge_def onLoad_def split_beta)

text \<open>
  Two kinds of specifier never reach the resolution step of the hook for bare imports,
  whatever they resolve to. The filter of the hook, \<open>/^[\w@][^:]/\<close>, asks for two
  characters: a specifier of one character, such as \<open>q\<close>, goes to the catch-all hook,
  which crawls into the package and records nothing. And \<open>depImports[id]\<close> is read
  from a plain object: for the name of a member of \<open>Object.prototype\<close>, such as
  \<open>constructor\<close>, it is truthy although nothing was recorded, and the edge is
  externalized unrecorded.
\<close>

lemma specifiers_beside_the_bare_hook:
  "\<not> bareImportRE ''q'' \<and>
   fst (onResolve sampleHost sampleConfig [''/project/index.html'']
          (sampleEdge ''q'' ''/project/src/main.ts'') initialState) =
     \<lparr>resPath = ''/project/node_modules/q/index.js'', resExternal = False,
      resNamespace = None\<rparr> \<and>
   depImports (snd (onResolve sampleHost sampleConfig [''/project/index.html'']
          (sampleEdge ''q'' ''/project/src/main.ts'') initialState)) = [] \<and>
   bareImportRE ''constructor'' \<and>
   map_of (depImports initialState) ''constructor'' = None \<and>
   obj_truthy (depImports initialState) ''constructor'' \<and>
   fst (resolve sampleHost ''constructor'' (Some ''/project/src/main.ts'') (DepScan None)
          initialState) = Some ''/project/node_modules/constructor/index.js'' \<and>
   fst (onResolve sampleHost sampleConfig [''/project/index.html'']
          (sampleEdge ''constructor'' ''/project/src/main.ts'') initialState) =
     \<lparr>resPath = ''constructor'', resExternal = True, resNamespace = None\<rparr> \<and>
   depImports (snd (onResolve sampleHost sampleConfig [''/project/index.html'']
          (sampleEdge ''constructor'' ''/project/src/main.ts'') initialState)) = []"
  by (simp add: sample_defs hook_defs)

text \<open>
  C4, amended. Let the specifier be one that the hook for bare imports handles up to its
  resolution step: it matches the filter \<open>/^[\w@][^:]/\<close> of the hook (at least two
  characters, the first a word character or \<open>@\<close>, the second not a colon) and none of
  the filters registered before it for remote URLs, data URLs and virtual modules; it is
  not in the exclude list; and \<open>depImports[id]\<close> is falsy, that is, the specifier has no
  truthy entry of its own in \<open>depImports\<close> and is not the name of a member of
  \<open>Object.prototype\<close>. Let the facade resolve it from the importer, with and without the
  \<open>depScan\<close> options, to one non-empty path for which \<open>shouldExternalizeDep\<close> is false
  (the path is absolute, differs from the specifier and holds no NUL character), and let
  that path lie under \<open>node_modules\<close> or the specifier be in \<open>optimizeDeps.include\<close>. If
  the specifier has a markup extension and the path is not both under \<open>node_modules\<close>
  and optimizable, the markup hook, registered earlier, claims the edge for the
  namespace \<open>html\<close> and \<open>depImports\<close> stays as it is. In every other case the result
  is \<open>externalUnlessEntry\<close> of the specifier (external unless the specifier is itself an
  entry), and \<open>depImports\<close> maps the specifier to the resolved path exactly when the path
  is optimizable.
\<close>

theorem bare_import_in_node_modules:
  assumes edge: "edgePath e = k"
    and bare: "bareImportRE k"
    and filters: "\<not> externalRE k" "\<not> dataUrlRE h k" "\<not> virtualModuleRE h k"
    and fresh: "\<not> moduleListContains h (exclude config) k" "\<not> obj_truthy (depImports st) k"
    and resolved: "\<forall>opts. fst (resolve h k (Some (edgeImporter e)) opts st) = Some r" "r \<noteq> []"
    and real: "\<not> shouldExternalizeDep h r k"
    and dep: "str_includes r ''node_modules'' \<or> includeContains config k"
  shows "if htmlTypesRE k \<and> \<not> (str_includes r ''node_modules'' \<and> isOptimizable h r)
         then fst (onResolve h config entries e st) =
                \<lparr>resPath = r, resExternal = False, resNamespace = Some ''html''\<rparr> \<and>
              depImports (snd (onResolve h config entries e st)) = depImports st
         else fst (onResolve h config entries e st) = externalUnlessEntry entries k \<and>
              resExternal (fst (onResolve h config entries e st)) = (k \<notin> set entries) \<and>
              depImports (snd (onResolve h config entries e st)) =
                (if isOptimizable h r then obj_set (depImports st) k r else depImports st)"
proof -
  obtain st1 where r1: "resolve h k (Some (edgeImporter e)) NoOptions st = (Some r, st1)"
    using resolved(1) by (metis prod.collapse)
  note f1 = resolve_seen_frame[OF r1]
  obtain st2 where r2: "resolve h k (Some (edgeImporter e)) (DepScan (edgeLoader e)) st = (Some r, st2)"
    using resolved(1) by (metis prod.collapse)
  note f2 = resolve_seen_frame[OF r2]
  have again: "resolve h k (Some (edgeImporter e)) (DepScan (edgeLoader e)) st1 = (Some r, st1)"
    using f1 by (simp add: resolve_cached)
  have bareHook: "bareImportOnResolve h config entries e st2' =
      (Some (externalUnlessEntry entries k),
       if isOptimizable h r then st3\<lparr>depImports := obj_set (depImports st3) k r\<rparr> else st3)"
    if "resolve h k (Some (edgeImporter e)) (DepScan (edgeLoader e)) st2' = (Some r, st3)"
      and "depImports st2' = depImports st" for st2' st3
    using that edge fresh resolved(2) real dep
    by (simp add: bareImportOnResolve_def)
  show ?thesis
  proof (cases "htmlTypesRE k")
    case False
    then have "onResolve h config entries e st =
      (externalUnlessEntry entries k,
       if isOptimizable h r then st2\<lparr>depImports := obj_set (depImports st2) k r\<rparr> else st2)"
      using edge bare filters bareHook[OF r2] by (simp add: onResolve_def)
    then show ?thesis using False f2 by (simp add: externalUnlessEntry_def)
  next
    case True
    show ?thesis
    proof (cases "str_includes r ''node_modules'' \<and> isOptimizable h r")
      case False
      then have "htmlTypesOnResolve h e st =
          (Some \<lparr>resPath = r, resExternal = False, resNamespace = Some ''html''\<rparr>, st1)"
        using r1 edge resolved(2) by (auto simp: htmlTypesOnResolve_def)
      then have "onResolve h config entries e st =
          (\<lparr>resPath = r, resExternal = False, resNamespace = Some ''html''\<rparr>, st1)"
        using True edge filters by (simp add: onResolve_def)
      then show ?thesis using True False f1 by simp
    next
      case opt: True
      then have "htmlTypesOnResolve h e st = (None, st1)"
        using r1 edge resolved(2) by (auto simp: htmlTypesOnResolve_def)
      then have "onResolve h config entries e st =
        (externalUnlessEntry entries k,
         if isOptimizable h r then st1\<lparr>depImports := obj_set (depImports st1) k r\<rparr> else st1)"
        using True edge bare filters bareHook[OF again] f1 by (simp add: onResolve_def)
      then show ?thesis using True opt f1 by (simp add: externalUnlessEntry_def)
    qed
  qed
qed

theorem bare_import_in_node_modules_witness:
  "bareImportRE ''react'' \<and>
   \<not> moduleListContains sampleHost (exclude sampleConfig) ''react'' \<and>
   \<not> obj_truthy (depImports initialState) ''react'' \<and>
   (\<forall>opts. fst (resolve sampleHost ''react'' (Some ''/project/src/main.ts'') opts initialState) =
      Some ''/project/node_modules/react/index.js'') \<and>
   \<not> shouldExternalizeDep sampleHost ''/project/node_modules/react/index.js'' ''react'' \<and>
   str_includes ''/project/node_modules/react/index.js'' ''node_modules'' \<and>
   fst (onResolve sampleHost sampleConfig [''/project/index.html'']
          (sampleEdge ''react'' ''/project/src/main.ts'') initialState) =
     \<lparr>resPath = ''react'', resExternal = True, resNamespace = None\<rparr> \<and>
   depImports (snd (onResolve sampleHost sampleConfig [''/project/index.html'']
          (sampleEdge ''react'' ''/project/src/main.ts'') initialState)) =
     [(''react'', ''/project/node_modules/react/index.js'')]"
proof -
  let ?e = "sampleEdge ''react'' ''/project/src/main.ts''"
  let ?r = "''/project/node_modules/react/index.js''"
  have edge: "edgePath ?e = ''react''"
    by (simp add: sampleEdge_def)
  have bare: "bareImportRE ''react''"
    by (simp add: isWordChar_def)
  have filters: "\<not> externalRE ''react''" "\<not> dataUrlRE sampleHost ''react''"
      "\<not> virtualModuleRE sampleHost ''react''"
    by (simp_all add: sample_defs hook_defs)
  have fresh: "\<not> moduleListContains sampleHost (exclude sampleConfig) ''react''"
      "\<not> obj_truthy (depImports initialState) ''react''"
    by (simp_all add: sample_defs hook_defs)
  have resolved: "\<forall>opts. fst (resolve sampleHost ''react'' (Some (edgeImporter ?e)) opts initialState) =
      Some ?r" "?r \<noteq> []"
    by (simp_all add: sample_defs hook_defs)
  have real: "\<not> shouldExternalizeDep sampleHost ?r ''react''"
    by (simp add: sample_defs hook_defs)
  have dep: "str_includes ?r ''node_modules'' \<or> includeContains sampleConfig ''react''"
    by simp
  have markup: "\<not> htmlTypesRE ''react''" "isOptimizable sampleHost ?r"
    by (simp_all add: sample_defs hook_defs)
  show ?thesis
    using bare_import_in_node_modules [OF edge bare filters fresh resolved real dep,
        of "[''/project/index.html'']"]
      bare fresh resolved(1) real markup
    by (simp add: externalUnlessEntry_def sampleEdge_def initialState_def)
qed

subsection \<open>Entry discovery\<close>

text \<open>
  C2. When entry discovery does not throw and no discovered entry is both scannable and
  on disk, \<open>scanImports\<close> returns \<open>{deps: {}, missing: {}}\<close> and calls \<open>build\<close> for no entry;
  it logs the warning exactly when \<open>optimizeDeps.entries\<close> is falsy (no explicit entry
  patterns) and \<open>optimizeDeps.include\<close> is not set, and logs nothing otherwise.
\<close>

theorem empty_entries_no_crawl:
  assumes found: "findEntries h config = Inr found"
    and none: "filter (\<lambda>entry. isScannable h entry \<and> existsSync h entry) found = []"
  shows "returned (scanImports h config) = Inr \<lparr>deps = [], missing = []\<rparr> \<and>
         builds (scanImports h config) = [] \<and>
         warnings (scanImports h config) =
           (if \<not> truthy (optimizeDeps_entries config) \<and> optimizeDeps_include config = None
            then [noEntryWarning] else [])"
  using assms by (simp add: scanImports_def)

theorem empty_entries_no_crawl_witness:
  "findEntries (sampleHost\<lparr>glob := (\<lambda>pattern cwd ignored. [''/project/README.md''])\<rparr>) sampleConfig =
     Inr [''/project/README.md''] \<and>
   filter (\<lambda>entry. isScannable (sampleHost\<lparr>glob := (\<lambda>pattern cwd ignored. [''/project/README.md''])\<rparr>) entry \<and>
        existsSync (sampleHost\<lparr>glob := (\<lambda>pattern cwd ignored. [''/project/README.md''])\<rparr>) entry)
     [''/project/README.md''] = [] \<and>
   scanImports (sampleHost\<lparr>glob := (\<lambda>pattern cwd ignored. [''/project/README.md''])\<rparr>) sampleConfig =
     \<lparr>returned = Inr \<lparr>deps = [], missing = []\<rparr>, warnings = [noEntryWarning], builds = []\<rparr> \<and>
   warnings (scanImports (sampleHost\<lparr>glob := (\<lambda>pattern cwd ignored. [''/project/README.md''])\<rparr>)
     (sampleConfig\<lparr>optimizeDeps_include := Some [''lodash-es'']\<rparr>)) = []"
proof -
  let ?h = "sampleHost\<lparr>glob := (\<lambda>pattern cwd ignored. [''/project/README.md''])\<rparr>"
  let ?c = "sampleConfig\<lparr>optimizeDeps_include := Some [''lodash-es'']\<rparr>"
  have found: "findEntries ?h sampleConfig = Inr [''/project/README.md'']"
    by (simp add: findEntries_def globEntries_def sample_defs)
  have found': "findEntries ?h ?c = Inr [''/project/README.md'']"
    by (simp add: findEntries_def globEntries_def sample_defs)
  have none: "filter (\<lambda>entry. isScannable ?h entry \<and> existsSync ?h entry) [''/project/README.md''] = []"
    by (simp add: sample_defs hook_defs)
  have conf: "\<not> truthy (optimizeDeps_entries sampleConfig)" "optimizeDeps_include sampleConfig = None"
    "\<not> truthy (optimizeDeps_entries ?c)" "optimizeDeps_include ?c \<noteq> None"
    by (simp_all add: sample_defs)
  show ?thesis
    using empty_entries_no_crawl [OF found none] empty_entries_no_crawl [OF found' none]
      found none conf
    by (cases "scanImports ?h sampleConfig") simp
qed

text \<open>
  C9. When \<open>rollupOptions.input\<close> is the source of the entries (no explicit entry patterns,
  and the input is truthy) and it is neither a string, an array nor an object,
  \<open>scanImports\<close> throws: it ends with the error, no warning and no call of \<open>build\<close>.
\<close>

theorem invalid_build_input_throws:
  assumes "\<not> truthy (optimizeDeps_entries config)"
    and "truthy (rollupOptions_input config)"
    and "\<forall>p. rollupOptions_input config \<noteq> JString p"
    and "\<forall>ps. rollupOptions_input config \<noteq> JArray ps"
    and "\<forall>kvs. rollupOptions_input config \<noteq> JObject kvs"
  shows "scanImports h config = \<lparr>returned = Inl InvalidRollupInput, warnings = [], builds = []\<rparr>"
proof -
  have "findEntries h config = Inl InvalidRollupInput"
    using assms by (cases "rollupOptions_input config") (simp_all add: findEntries_def)
  then show ?thesis by (simp add: scanImports_def)
qed

theorem invalid_build_input_throws_witness:
  "\<not> truthy (optimizeDeps_entries (sampleConfig\<lparr>rollupOptions_input := JNumber 42\<rparr>)) \<and>
   truthy (rollupOptions_input (sampleConfig\<lparr>rollupOptions_input := JNumber 42\<rparr>)) \<and>
   scanImports sampleHost (sampleConfig\<lparr>rollupOptions_input := JNumber 42\<rparr>) =
     \<lparr>returned = Inl InvalidRollupInput, warnings = [], builds = []\<rparr>"
proof -
  let ?c = "sampleConfig\<lparr>rollupOptions_input := JNumber 42\<rparr>"
  have a: "\<not> truthy (optimizeDeps_entries ?c)" "truthy (rollupOptions_input ?c)"
    "\<forall>p. rollupOptions_input ?c \<noteq> JString p" "\<forall>ps. rollupOptions_input ?c \<noteq> JArray ps"
    "\<forall>kvs. rollupOptions_input ?c \<noteq> JObject kvs"
    by (simp_all add: sample_defs)
  show ?thesis
    using invalid_build_input_throws [OF a, of sampleHost] a(1,2) by simp
qed

subsection \<open>Calls of the resolve facade that overlap\<close>

text \<open>
  C8, as the claim states it, fails: \<open>seen\<close> holds results, not promises, and a result is
  stored only after the resolver has answered. Two calls with the same key that are both
  started before either is resumed both miss the cache and both call the resolver.
\<close>

theorem concurrent_resolve_counterexample:
  "length (resolveIdCalls (runState (runResolves sampleHost
      [\<lparr>callId = ''react'', callImporter = Some ''/project/src/main.ts'', callOptions = DepScan None\<rparr>,
       \<lparr>callId = ''react'', callImporter = Some ''/project/src/App.tsx'', callOptions = DepScan None\<rparr>]
      [CallStart 0, CallStart 1, CallResume 0, CallResume 1] initialState))) = 2 \<and>
   resolveKey sampleHost ''react'' (Some ''/project/src/main.ts'') =
   resolveKey sampleHost ''react'' (Some ''/project/src/App.tsx'')"
  by (simp add: runResolves_def sample_defs hook_defs)

text \<open>
  C8, amended. A call of the facade that starts after a call with the same key has
  finished returns that call's result (a failed resolution included) and leaves the
  state as it is: run one after the other, the two calls invoke the resolver at most
  once. (Calls that overlap each invoke it, as the example above shows.)
\<close>

theorem sequential_resolve_once:
  assumes key: "resolveKey h (callId c2) (callImporter c2) = resolveKey h (callId c1) (callImporter c1)"
  shows "resolve h (callId c2) (callImporter c2) (callOptions c2)
           (snd (resolve h (callId c1) (callImporter c1) (callOptions c1) st)) =
         resolve h (callId c1) (callImporter c1) (callOptions c1) st \<and>
         length (resolveIdCalls (runState (runResolves h [c1, c2]
           [CallStart 0, CallResume 0, CallStart 1, CallResume 1] st))) \<le>
           Suc (length (resolveIdCalls st)) \<and>
         map snd (finished (runResolves h [c1, c2]
           [CallStart 0, CallResume 0, CallStart 1, CallResume 1] st)) =
           [fst (resolve h (callId c1) (callImporter c1) (callOptions c1) st),
            fst (resolve h (callId c1) (callImporter c1) (callOptions c1) st)]"
proof -
  obtain v st1 where r1: "resolve h (callId c1) (callImporter c1) (callOptions c1) st = (v, st1)"
    by (cases "resolve h (callId c1) (callImporter c1) (callOptions c1) st")
  have "map_of (seen st1) (resolveKey h (callId c2) (callImporter c2)) = Some v"
    using resolve_seen[OF r1] key by simp
  then have r2: "resolve h (callId c2) (callImporter c2) (callOptions c2) st1 = (v, st1)"
    by (rule resolve_cached)
  let ?run0 = "\<lparr>runState = st, awaiting = [], finished = []\<rparr>"
  have step1: "stepResolve h [c1, c2] (stepResolve h [c1, c2] ?run0 (CallStart 0)) (CallResume 0) =
      \<lparr>runState = st1, awaiting = [], finished = [(0, v)]\<rparr>"
    using start_then_resume[of 0 "[c1, c2]" ?run0 h] r1 by simp
  have step2: "stepResolve h [c1, c2]
        (stepResolve h [c1, c2] \<lparr>runState = st1, awaiting = [], finished = [(0, v)]\<rparr> (CallStart 1))
        (CallResume 1) =
      \<lparr>runState = st1, awaiting = [], finished = [(0, v), (1, v)]\<rparr>"
    using start_then_resume[of 1 "[c1, c2]" "\<lparr>runState = st1, awaiting = [], finished = [(0, v)]\<rparr>" h] r2
    by simp
  have run: "runResolves h [c1, c2] [CallStart 0, CallResume 0, CallStart 1, CallResume 1] st =
      \<lparr>runState = st1, awaiting = [], finished = [(0, v), (1, v)]\<rparr>"
    using step1 step2 by (simp add: runResolves_def)
  have "length (resolveIdCalls st1) \<le> Suc (length (resolveIdCalls st))"
    using resolve_calls[of h "callId c1" "callImporter c1" "callOptions c1" st] r1 by simp
  then show ?thesis using r1 r2 run by simp
qed

theorem sequential_resolve_once_witness:
  "resolveKey sampleHost ''react'' (Some ''/project/src/App.tsx'') =
     resolveKey sampleHost ''react'' (Some ''/project/src/main.ts'') \<and>
   length (resolveIdCalls (runState (runResolves sampleHost
      [\<lparr>callId = ''react'', callImporter = Some ''/project/src/main.ts'', callOptions = DepScan None\<rparr>,
       \<lparr>callId = ''react'', callImporter = Some ''/project/src/App.tsx'', callOptions = DepScan None\<rparr>]
      [CallStart 0, CallResume 0, CallStart 1, CallResume 1] initialState))) \<le> 1"
proof -
  let ?c1 = "\<lparr>callId = ''react'', callImporter = Some ''/project/src/main.ts'', callOptions = DepScan None\<rparr>"
  let ?c2 = "\<lparr>callId = ''react'', callImporter = Some ''/project/src/App.tsx'', callOptions = DepScan None\<rparr>"
  have key: "resolveKey sampleHost (callId ?c2) (callImporter ?c2) =
      resolveKey sampleHost (callId ?c1) (callImporter ?c1)"
    by (simp add: sample_defs hook_defs)
  have "resolveIdCalls initialState = []"
    by (simp add: initialState_def)
  then show ?thesis
    using sequential_resolve_once [OF key, of initialState] key by simp
qed

subsection \<open>The order of the returned dependencies\<close>

text \<open>
  C1, as the claim states it, fails: \<open>orderedDependencies\<close> sorts the entries and then
  builds an object from them, and an object enumerates the keys that are array indices
  first, in numeric order, wherever they were inserted. In the sample project the
  packages \<open>99\<close> and \<open>100\<close> are sorted as \<open>100\<close>, \<open>99\<close> (by code units), and the returned
  object enumerates \<open>99\<close> before \<open>100\<close>.
\<close>

theorem scanImports_deps_order_counterexample:
  "returned (scanImports
      (sampleHost\<lparr>crawl := (\<lambda>entries.
         \<lparr>crawlEdges = [sampleEdge ''99'' ''/project/src/main.ts'',
                        sampleEdge ''100'' ''/project/src/main.ts''],
          crawlError = None\<rparr>)\<rparr>)
      sampleConfig) =
     Inr \<lparr>deps = [(''100'', ''/project/node_modules/100/index.js''),
                  (''99'', ''/project/node_modules/99/index.js'')],
          missing = []\<rparr> \<and>
   Object_keys [(''100'', ''/project/node_modules/100/index.js''),
                (''99'', ''/project/node_modules/99/index.js'')] = [''99'', ''100''] \<and>
   localeCompare sampleHost ''100'' ''99'' < 0 \<and>
   \<not> sorted_wrt (\<lambda>a b. localeCompare sampleHost a b \<le> 0) [''99'', ''100'']"
  by (simp add: sample_defs hook_defs scan_defs)

text \<open>
  C1, amended. Let \<open>localeCompare\<close> be linear on the specifiers at hand (any two are
  comparable, only equal ones compare as equal, transitive). Then the \<open>deps\<close> that a
  completed scan returns was built by inserting the specifiers in ascending
  \<open>localeCompare\<close> order; it enumerates first the specifiers that are array indices, in
  ascending numeric order, then all others in ascending \<open>localeCompare\<close> order. And two
  completed scans under the same \<open>localeCompare\<close> whose returned \<open>deps\<close> hold the same set
  of (specifier, resolved path) pairs return the identical object, whatever the order in
  which their crawls inserted the pairs.
\<close>

theorem scanImports_deps_order:
  assumes scan1: "returned (scanImports h1 config1) = Inr r1"
    and scan2: "returned (scanImports h2 config2) = Inr r2"
    and same: "localeCompare h2 = localeCompare h1"
    and lin: "linearOn (localeCompare h1) (set (map fst (deps r1)) \<union> set (map fst (deps r2)))"
  shows "sorted_wrt (\<lambda>a b. localeCompare h1 a b \<le> 0) (map fst (deps r1)) \<and>
         sorted_wrt (\<lambda>a b. localeCompare h1 a b \<le> 0)
           (filter (\<lambda>k. \<not> isArrayIndex k) (Object_keys (deps r1))) \<and>
         sorted (map decimalValue (filter isArrayIndex (Object_keys (deps r1)))) \<and>
         Object_keys (deps r1) =
           filter isArrayIndex (Object_keys (deps r1)) @
           filter (\<lambda>k. \<not> isArrayIndex k) (Object_keys (deps r1)) \<and>
         (set (deps r1) = set (deps r2) \<longrightarrow> deps r1 = deps r2)"
proof -
  let ?le = "\<lambda>a b. localeCompare h1 a b \<le> 0"
  let ?c = "\<lambda>a b. localeCompare h1 (fst a) (fst b)"
  have s1: "sorted_wrt (\<lambda>a b. ?c a b \<le> 0) (deps r1)"
    and d1: "distinct (map fst (deps r1))"
    and l1: "linearOn ?c (set (deps r1))"
    using deps_sorted[OF scan1 lin] by simp_all
  have lin2: "linearOn (localeCompare h2) (set (map fst (deps r1)) \<union> set (map fst (deps r2)))"
    using lin same by simp
  have s2: "sorted_wrt (\<lambda>a b. ?c a b \<le> 0) (deps r2)"
    and d2: "distinct (map fst (deps r2))"
    using deps_sorted[OF scan2 lin2] same by simp_all
  have creation: "sorted_wrt ?le (map fst (deps r1))"
    using s1 by (simp add: sorted_wrt_map)
  have others: "sorted_wrt ?le (filter (\<lambda>k. \<not> isArrayIndex k) (Object_keys (deps r1)))"
    using creation by (simp add: filter_Object_keys(1) sorted_wrt_filter)
  have indices: "sorted (map decimalValue (filter isArrayIndex (Object_keys (deps r1))))"
    using sorted_sort_key[of "\<lambda>p. decimalValue (fst p)"
        "filter (\<lambda>p. isArrayIndex (fst p)) (deps r1)"]
    by (simp add: filter_Object_keys(2) comp_def)
  have split: "Object_keys (deps r1) =
      filter isArrayIndex (Object_keys (deps r1)) @
      filter (\<lambda>k. \<not> isArrayIndex k) (Object_keys (deps r1))"
    by (simp add: filter_Object_keys) (simp add: Object_keys_def Object_entries_def filter_map comp_def)
  have same_set: "deps r1 = deps r2" if "set (deps r1) = set (deps r2)"
    using sorted_wrt_unique[OF l1 _ s1 s2 _ _ that] d1 d2 by (simp add: distinct_map)
  show ?thesis using creation others indices split same_set by blast
qed

theorem scanImports_deps_order_witness:
  "returned (scanImports
      (sampleHost\<lparr>crawl := (\<lambda>entries.
         \<lparr>crawlEdges = [sampleEdge ''vue'' ''/project/src/main.ts'',
                        sampleEdge ''react'' ''/project/src/main.ts''],
          crawlError = None\<rparr>)\<rparr>)
      sampleConfig) =
     Inr \<lparr>deps = [(''react'', ''/project/node_modules/react/index.js''),
                  (''vue'', ''/project/node_modules/vue/index.js'')],
          missing = []\<rparr> \<and>
   returned (scanImports
      (sampleHost\<lparr>crawl := (\<lambda>entries.
         \<lparr>crawlEdges = [sampleEdge ''react'' ''/project/src/main.ts'',
                        sampleEdge ''vue'' ''/project/src/main.ts''],
          crawlError = None\<rparr>)\<rparr>)
      sampleConfig) =
     Inr \<lparr>deps = [(''react'', ''/project/node_modules/react/index.js''),
                  (''vue'', ''/project/node_modules/vue/index.js'')],
          missing = []\<rparr> \<and>
   linearOn codeUnitCompare {''react'', ''vue''} \<and>
   sorted_wrt (\<lambda>a b. codeUnitCompare a b \<le> 0)
     (filter (\<lambda>k. \<not> isArrayIndex k)
       (Object_keys [(''react'', ''/project/node_modules/react/index.js''),
                     (''vue'', ''/project/node_modules/vue/index.js'')]))"
proof -
  let ?hA = "sampleHost\<lparr>crawl := (\<lambda>entries.
         \<lparr>crawlEdges = [sampleEdge ''vue'' ''/project/src/main.ts'',
                        sampleEdge ''react'' ''/project/src/main.ts''],
          crawlError = None\<rparr>)\<rparr>"
  let ?hB = "sampleHost\<lparr>crawl := (\<lambda>entries.
         \<lparr>crawlEdges = [sampleEdge ''react'' ''/project/src/main.ts'',
                        sampleEdge ''vue'' ''/project/src/main.ts''],
          crawlError = None\<rparr>)\<rparr>"
  let ?r = "\<lparr>deps = [(''react'', ''/project/node_modules/react/index.js''),
                  (''vue'', ''/project/node_modules/vue/index.js'')],
          missing = []\<rparr>"
  have scanA: "returned (scanImports ?hA sampleConfig) = Inr ?r"
    by (simp add: sample_defs hook_defs scan_defs)
  have scanB: "returned (scanImports ?hB sampleConfig) = Inr ?r"
    by (simp add: sample_defs hook_defs scan_defs)
  have same: "localeCompare ?hB = localeCompare ?hA"
    by (simp add: sampleHost_def)
  have lin0: "linearOn codeUnitCompare {''react'', ''vue''}"
    by (simp add: linearOn_def)
  have lin: "linearOn (localeCompare ?hA) (set (map fst (deps ?r)) \<union> set (map fst (deps ?r)))"
    using lin0 by (simp add: sampleHost_def insert_commute)
  have cmp: "localeCompare ?hA = codeUnitCompare"
    by (simp add: sampleHost_def)
  show ?thesis
    using scanImports_deps_order [OF scanA scanB same lin] scanA scanB lin0 cmp
    by simp
qed

subsection \<open>The load hook for markup files\<close>




text \<open>
  Where a block reaches the \<open>await\<close>, another load of a markup file can run before the
  loop goes on, and \<open>lastIndex\<close> belongs to both. In \<open>sampleGlobHtml\<close> the first block
  awaits: left alone, the loop visits both blocks; if another load has set \<open>lastIndex\<close>
  back to 0, the first block is visited, and extracted, a second time; if another load
  has left \<open>lastIndex\<close> at 70, inside the second block, that block is never visited.
\<close>

lemma overlapping_loads:
  "scriptVisits sampleHost ''/project/index.html'' sampleGlobHtml [] =
     [(''<script type='' @ [dquote] @ ''module'' @ [dquote] @ ''>'',
       ''import.meta.glob('' @ [squote] @ ''./x/*.js'' @ [squote] @ '')''),
      (''<script type='' @ [dquote] @ ''module'' @ [dquote] @ '' src='' @ [dquote] @ ''/b.js'' @
         [dquote] @ ''>'', [])] \<and>
   scriptVisits sampleHost ''/project/index.html'' sampleGlobHtml [Some 0] =
     [(''<script type='' @ [dquote] @ ''module'' @ [dquote] @ ''>'',
       ''import.meta.glob('' @ [squote] @ ''./x/*.js'' @ [squote] @ '')''),
      (''<script type='' @ [dquote] @ ''module'' @ [dquote] @ ''>'',
       ''import.meta.glob('' @ [squote] @ ''./x/*.js'' @ [squote] @ '')''),
      (''<script type='' @ [dquote] @ ''module'' @ [dquote] @ '' src='' @ [dquote] @ ''/b.js'' @
         [dquote] @ ''>'', [])] \<and>
   scriptVisits sampleHost ''/project/index.html'' sampleGlobHtml [Some 70] =
     [(''<script type='' @ [dquote] @ ''module'' @ [dquote] @ ''>'',
       ''import.meta.glob('' @ [squote] @ ''./x/*.js'' @ [squote] @ '')'')]"
  by code_simp

text \<open>
  C6. Let an entry whose name ends in \<open>.html\<close> hold the block
  \<open><script type="module" src="/src/main.ts"></script>\<close> and, behind it, the inline block
  \<open><script type="module">console.log(1)</script>\<close>, and around them any text in which
  script tags occur only inside comments and in which, before each of the two blocks,
  every comment is closed. Then, whatever the path, the host, the registry before the
  load and the other loads, the synthesized module is exactly the direct import of
  \<open>/src/main.ts\<close>, the re-export of the virtual module \<open><path>?id=0\<close> (with the
  virtual-module prefix, as a JSON string) and the default export; the registry gains
  that one virtual module, with contents \<open>console.log(1)\<close>, and none for the block with
  \<open>src\<close>.
\<close>

theorem html_entry_two_edges:
  assumes html: "endsWith path ''.html''"
    and doc: "readFileSync h path = pre @ moduleSrcBlock @ mid @ moduleInlineBlock @ post"
    and closed: "commentsClosed pre" "commentsClosed mid"
    and free: "noScriptTag (replaceComments 0 pre)" "noScriptTag (replaceComments 0 mid)"
      "noScriptTag (replaceComments 0 post)"
  shows "htmlOnLoad h config path reg interference =
     (\<lparr>load_loader = ''js'',
       load_contents =
         ''import '' @ [dquote] @ ''/src/main.ts'' @ [dquote] @ [newline] @
         ''export * from '' @ JSON_stringify (virtualModulePrefix h @ path @ ''?id=0'') @
         [newline] @ [newline] @ ''export default {}'',
       load_htmlType = None\<rparr>,
      obj_set reg (path @ ''?id=0'')
        \<lparr>load_loader = ''js'', load_contents = ''console.log(1)'', load_htmlType = Some ''js''\<rparr>)"
  using htmlOnLoad_two_blocks[OF html _ free, of h config reg interference]
    replaceComments_two_blocks[OF closed, of post]
  by (simp add: doc)

text \<open>
  An instance: the head of \<open>sampleCommentedHtml\<close> holds a script block inside a comment,
  and the double quote in \<open>sampleQuotedPath\<close> is escaped in the statement that re-exports
  the virtual module.
\<close>

theorem html_entry_two_edges_witness:
  "endsWith sampleQuotedPath ''.html'' \<and>
   readFileSync (sampleHost\<lparr>readFileSync := (\<lambda>p. sampleCommentedHtml)\<rparr>) sampleQuotedPath =
     sampleHead @ moduleSrcBlock @ [newline] @ moduleInlineBlock @ sampleFoot \<and>
   commentsClosed sampleHead \<and> commentsClosed [newline] \<and>
   noScriptTag (replaceComments 0 sampleHead) \<and> noScriptTag (replaceComments 0 [newline]) \<and>
   noScriptTag (replaceComments 0 sampleFoot) \<and> \<not> noScriptTag sampleHead \<and>
   htmlOnLoad (sampleHost\<lparr>readFileSync := (\<lambda>p. sampleCommentedHtml)\<rparr>) sampleConfig
       sampleQuotedPath [] [Some 0] =
     (\<lparr>load_loader = ''js'',
       load_contents =
         ''import '' @ [dquote] @ ''/src/main.ts'' @ [dquote] @ [newline] @
         ''export * from '' @ [dquote] @ ''virtual-module:/project/my'' @ [CHR 0x5C, dquote] @
         ''app/index.html?id=0'' @ [dquote] @ [newline] @ [newline] @ ''export default {}'',
       load_htmlType = None\<rparr>,
      [(sampleQuotedPath @ ''?id=0'',
        \<lparr>load_loader = ''js'', load_contents = ''console.log(1)'', load_htmlType = Some ''js''\<rparr>)])"
proof -
  let ?h = "sampleHost\<lparr>readFileSync := (\<lambda>p. sampleCommentedHtml)\<rparr>"
  have onDisk: "readFileSync ?h sampleQuotedPath =
      sampleHead @ moduleSrcBlock @ [newline] @ moduleInlineBlock @ sampleFoot"
    by (simp add: sampleCommentedHtml_def)
  show ?thesis
    using html_entry_two_edges [OF sample_commented(1) onDisk sample_commented(2-6),
        of sampleConfig "[]" "[Some 0]"]
      sample_commented onDisk
    by simp
qed

end
